theory Spec2Isabelle
  imports Main "HOL-Library.Sublist" "HOL-Library.Multiset" "HOL-Library.Product_Lexorder"
    "HOL-Library.List_Lexorder" "HOL-Library.Char_ord" "HOL-Library.AList"
begin

section \<open>Strings, paths and dictionaries\<close>

text \<open>
  Python strings are modelled as \<^typ>\<open>string\<close>, lists of 8-bit characters. On ASCII
  strings \<open>len\<close> is \<^const>\<open>length\<close> and \<open>str.lower()\<close> maps \<open>A\<close> to \<open>Z\<close> onto \<open>a\<close> to \<open>z\<close>
  and nothing else; beyond ASCII Python counts and lowercases code points, which the model
  does not follow. Every statement that rests on \<open>lower\<close> or on the length of a path string
  is therefore stated for ASCII paths (\<open>ascii_path\<close>).
\<close>

definition ascii :: "string \<Rightarrow> bool" where
  "ascii s = list_all (\<lambda>c. (of_char c :: nat) < 128) s"

definition ascii_path :: "string list \<Rightarrow> bool" where
  "ascii_path p = list_all ascii p"

definition lower_char :: "char \<Rightarrow> char" where
  "lower_char c =
     (let n = (of_char c :: nat) in if 65 \<le> n \<and> n \<le> 90 then char_of (n + 32) else c)"

text \<open>\<open>str.lower()\<close>, on ASCII strings.\<close>

definition lower :: "string \<Rightarrow> string" where
  "lower s = map lower_char s"

text \<open>\<open>sep.join(xs)\<close>.\<close>

fun join :: "string \<Rightarrow> string list \<Rightarrow> string" where
  "join sep [] = []"
| "join sep [x] = x"
| "join sep (x # y # ys) = x @ sep @ join sep (y # ys)"

text \<open>
  A \<open>pathlib.Path\<close> is the list of its \<open>parts\<close>; an absolute POSIX path has the
  part \<open>/\<close> first. \<open>p / name\<close> with a single-component name appends one part.
\<close>

type_synonym path = "string list"

text \<open>\<open>str(path)\<close>.\<close>

fun path_str :: "path \<Rightarrow> string" where
  "path_str [] = ''.''"
| "path_str (p # ps) = (if p = ''/'' then ''/'' @ join ''/'' ps else join ''/'' (p # ps))"

text \<open>\<open>path.name\<close>: the final component, the empty string for the root and for \<open>.\<close>.\<close>

definition path_name :: "path \<Rightarrow> string" where
  "path_name p = (if p = [] \<or> p = [''/''] then [] else last p)"

text \<open>
  One constructor for each place where the source raises. The first six are the
  \<open>RuntimeError\<close>s of \<open>core.py\<close>, named after their messages: "sandbox mode must be one of:
  full, strict", "Sandbox requested but bubblewrap (bwrap) not installed", "Command not
  found: c", "No installer matched pattern: p", "Installer file not found: p" and
  "Installer failed (rc). See: log". \<open>IndexError\<close> is \<open>cmd[0]\<close> on an empty list,
  \<open>ValueError\<close> is \<open>relative_to\<close> outside the base, \<open>OSError\<close> is a child process that
  could not be started.
\<close>

datatype error =
    InvalidMode
  | SandboxUnavailable
  | CommandNotFound string
  | NoInstallerMatched string
  | InstallerNotFound string
  | InstallerFailed int string
  | IndexError
  | ValueError
  | OSError

text \<open>\<open>path.relative_to(other)\<close> raises \<open>ValueError\<close> unless \<open>other\<close> is a prefix.\<close>

definition relative_to :: "path \<Rightarrow> path \<Rightarrow> error + path" where
  "relative_to p other = (if prefix other p then Inr (drop (length other) p) else Inl ValueError)"

text \<open>\<open>os.path.isabs\<close> and \<open>os.path.basename\<close> on POSIX.\<close>

definition isabs :: "string \<Rightarrow> bool" where
  "isabs s = (case s of [] \<Rightarrow> False | c # _ \<Rightarrow> c = CHR ''/'')"

definition basename :: "string \<Rightarrow> string" where
  "basename s = rev (takeWhile (\<lambda>c. c \<noteq> CHR ''/'') (rev s))"

text \<open>
  A Python dictionary of strings, as the list of its items in insertion order;
  \<open>d.get(k)\<close> is \<^term>\<open>map_of d k\<close>.
\<close>

type_synonym dict = "(string \<times> string) list"

type_synonym ref = nat

section \<open>The host and the store\<close>

text \<open>
  Everything the code reads from or does to the machine. The probes of the host
  (\<open>Path.home()\<close>, \<open>Path.exists()\<close>, \<open>shutil.which\<close>, \<open>Path.rglob("*.exe")\<close> in the order of
  the directory walk, \<open>expanduser\<close>, \<open>glob.glob\<close>, \<open>Path.resolve\<close>, \<open>time.ctime\<close>, the exit
  status of a child process and the output of \<open>winepath -w\<close>) are fields read by the model;
  \<open>proc_exit\<close> is \<open>None\<close> when the child cannot be started. The effects on the machine are
  logged in \<open>spawned\<close> (the processes started, with their environment), \<open>written\<close> (text
  appended to log files), \<open>copied\<close> and \<open>saved\<close> (\<open>save_config\<close>). \<open>os.environ\<close> is the field
  \<open>environ\<close>; every other dictionary lives in \<open>heap\<close> at a reference, so that a copy is a
  new object and a mutation is visible through every alias. \<open>CACHE_DIR\<close>, \<open>LOG_DIR\<close>
  and \<open>APPS_DIR\<close> are the constants of \<open>norun.config\<close>, taken as parameters.
\<close>

text \<open>
  The persisted configuration of an app, as \<open>create_app\<close> writes it; \<open>cfg_prefix\<close> is
  \<open>Path(cfg["prefix"])\<close>.
\<close>

record cfg =
  cfg_name :: string
  cfg_profile :: string
  cfg_runner :: string
  cfg_prefix :: path
  cfg_last_exe :: string
  cfg_sandbox :: bool
  cfg_sandbox_mode :: string

record world =
  home_dir :: path
  environ :: dict
  path_exists :: "string \<Rightarrow> bool"
  which :: "string \<Rightarrow> string option"
  rglob_exe :: "path \<Rightarrow> path list"
  CACHE_DIR :: path
  LOG_DIR :: path
  APPS_DIR :: path
  heap :: "ref \<Rightarrow> dict"
  fresh :: ref
  proc_exit :: "string list \<Rightarrow> dict \<Rightarrow> int option"
  spawned :: "(string list \<times> dict) list"
  ctime :: string
  written :: "(string \<times> string) list"
  expanduser :: "string \<Rightarrow> string"
  glob :: "string \<Rightarrow> string list"
  resolve_path :: "string \<Rightarrow> string"
  winepath_out :: "string \<Rightarrow> string"
  copied :: "(string \<times> string) list"
  saved :: "(string \<times> cfg) list"

text \<open>\<open>d.copy()\<close>: a new dictionary object with the same contents.\<close>

definition alloc :: "world \<Rightarrow> dict \<Rightarrow> ref \<times> world" where
  "alloc w d = (fresh w, w\<lparr>heap := (heap w)(fresh w := d), fresh := Suc (fresh w)\<rparr>)"

text \<open>\<open>d[k] = v\<close> on the dictionary object at \<open>r\<close>.\<close>

definition dict_set :: "world \<Rightarrow> ref \<Rightarrow> string \<Rightarrow> string \<Rightarrow> world" where
  "dict_set w r k v = w\<lparr>heap := (heap w)(r := AList.update k v (heap w r))\<rparr>"

text \<open>\<open>d.setdefault(k, v)\<close>: stores \<open>v\<close> only when \<open>k\<close> is not a key of \<open>d\<close>.\<close>

definition dict_setdefault :: "world \<Rightarrow> ref \<Rightarrow> string \<Rightarrow> string \<Rightarrow> world" where
  "dict_setdefault w r k v = (case map_of (heap w r) k of None \<Rightarrow> dict_set w r k v | Some _ \<Rightarrow> w)"

text \<open>Truthiness of \<open>os.environ.get(k)\<close> and of \<open>shutil.which(c)\<close>: present and not empty.\<close>

definition truthy :: "string option \<Rightarrow> bool" where
  "truthy v = (case v of None \<Rightarrow> False | Some s \<Rightarrow> s \<noteq> [])"

section \<open>Environment composition\<close>

text \<open>\<open>_env_for(prefix)\<close>; returns the reference of the new dictionary.\<close>

definition env_for :: "world \<Rightarrow> path \<Rightarrow> ref \<times> world" where
  "env_for w pfx =
     (let (env, w) = alloc w (environ w);
          w = dict_set w env ''WINEPREFIX'' (path_str pfx);
          w = dict_setdefault w env ''WINEDEBUG'' ''-all'';
          w = dict_set w env ''DXVK_STATE_CACHE_PATH'' (path_str (CACHE_DIR w @ [''dxvk'']));
          w = dict_set w env ''VKD3D_SHADER_CACHE_PATH'' (path_str (CACHE_DIR w @ [''vkd3d'']))
      in (env, w))"

section \<open>The sandbox policy builder\<close>

text \<open>
  \<open>_wrap_bwrap(cmd, mode, allow_downloads, extra_binds)\<close>: the argument vector of the
  isolation primitive, or the error raised for an unknown mode.
\<close>

definition wrap_bwrap ::
  "world \<Rightarrow> string list \<Rightarrow> string \<Rightarrow> bool \<Rightarrow> string list option \<Rightarrow> error + string list" where
  "wrap_bwrap w cmd mode allow_downloads extra_binds =
     (if mode \<notin> {''full'', ''strict''}
      then Inl InvalidMode
      else
        let home = path_str (home_dir w);
            norun_root = path_str (home_dir w @ [''.local'', ''share'', ''norun'']);
            downloads = path_str (home_dir w @ [''Downloads'']);
            binds = [''--unshare-all'', ''--share-net'', ''--die-with-parent'', ''--new-session'',
                     ''--dev-bind'', ''/dev'', ''/dev'',
                     ''--ro-bind'', ''/'', ''/'',
                     ''--proc'', ''/proc'',
                     ''--tmpfs'', ''/tmp''];
            binds = binds @ (if path_exists w ''/dev/dri''
                             then [''--dev-bind'', ''/dev/dri'', ''/dev/dri''] else []);
            binds = binds @ (case map_of (environ w) ''XDG_RUNTIME_DIR'' of
                               None \<Rightarrow> []
                             | Some xdg_rt \<Rightarrow>
                                 if xdg_rt \<noteq> [] \<and> path_exists w xdg_rt
                                 then [''--bind'', xdg_rt, xdg_rt] else []);
            binds = binds @ (if truthy (map_of (environ w) ''DISPLAY'')
                             then (if path_exists w ''/tmp/.X11-unix''
                                   then [''--bind'', ''/tmp/.X11-unix'', ''/tmp/.X11-unix''] else [])
                                @ (if path_exists w ''/tmp/.ICE-unix''
                                   then [''--bind'', ''/tmp/.ICE-unix'', ''/tmp/.ICE-unix''] else [])
                             else []);
            binds = binds @
              (if mode = ''full''
               then [''--bind'', home, home]
                  @ (if allow_downloads \<and> path_exists w downloads
                     then [''--bind'', downloads, downloads] else [])
               else (if path_exists w norun_root
                     then [''--bind'', norun_root, norun_root] else [])
                  @ (if allow_downloads \<and> path_exists w downloads
                     then [''--bind'', downloads, downloads] else [])
                  @ (let xauth = (case map_of (environ w) ''XAUTHORITY'' of
                                    None \<Rightarrow> path_str (home_dir w @ [''.Xauthority''])
                                  | Some x \<Rightarrow>
                                      if x \<noteq> [] then x
                                      else path_str (home_dir w @ [''.Xauthority'']))
                     in if xauth \<noteq> [] \<and> path_exists w xauth
                        then [''--ro-bind'', xauth, xauth] else []));
            binds = binds @ (case extra_binds of None \<Rightarrow> [] | Some e \<Rightarrow> e)
        in Inr (''bwrap'' # binds @ ''--'' # cmd))"

text \<open>
  The directives of an argument vector of the isolation primitive: each option with its
  operands, up to the terminator \<open>--\<close>. \<open>--bind\<close>, \<open>--ro-bind\<close> and \<open>--dev-bind\<close> take a
  host path and a sandbox path, \<open>--proc\<close> and \<open>--tmpfs\<close> a sandbox path.
\<close>

datatype directive =
    Flag string
  | Bind string string string
  | Mount string string
  | Malformed "string list"

fun directives :: "string list \<Rightarrow> directive list" where
  "directives [] = []"
| "directives (a # args) =
     (if a = ''--'' then []
      else if a \<in> {''--bind'', ''--ro-bind'', ''--dev-bind''} then
        (case args of
           s # d # rest \<Rightarrow> Bind a s d # directives rest
         | _ \<Rightarrow> [Malformed (a # args)])
      else if a \<in> {''--proc'', ''--tmpfs''} then
        (case args of
           d # rest \<Rightarrow> Mount a d # directives rest
         | _ \<Rightarrow> [Malformed (a # args)])
      else Flag a # directives args)"

fun is_bind :: "directive \<Rightarrow> bool" where
  "is_bind (Bind f s d) = True"
| "is_bind _ = False"

fun host_path :: "directive \<Rightarrow> string" where
  "host_path (Bind f s d) = s"
| "host_path _ = []"

section \<open>The process supervisor\<close>

text \<open>
  Lines 143 to 148 of \<open>_run\<close>: a first token that is not an absolute path is replaced by
  what \<open>shutil.which\<close> finds for it; an empty command is left as it is.
\<close>

definition resolve_cmd :: "world \<Rightarrow> string list \<Rightarrow> error + string list" where
  "resolve_cmd w cmd =
     (case cmd of
        [] \<Rightarrow> Inr cmd
      | c # rest \<Rightarrow>
          if isabs c then Inr cmd
          else (case which w c of
                  None \<Rightarrow> Inl (CommandNotFound c)
                | Some resolved \<Rightarrow>
                    if resolved = [] then Inl (CommandNotFound c)
                    else Inr (resolved # rest)))"

text \<open>
  Lines 150 to 155 of \<open>_run\<close>: for \<open>wine\<close> and \<open>wine64\<close> the path of \<open>wineserver\<close>, when
  found, is stored in the dictionary \<open>run_env\<close>. \<open>cmd[0]\<close> raises on an empty command.
\<close>

definition wineserver_env :: "world \<Rightarrow> ref \<Rightarrow> string list \<Rightarrow> error + world" where
  "wineserver_env w run_env cmd =
     (case cmd of
        [] \<Rightarrow> Inl IndexError
      | c # _ \<Rightarrow>
          if basename c \<in> {''wine'', ''wine64''}
          then (case which w ''wineserver'' of
                  None \<Rightarrow> Inr w
                | Some ws \<Rightarrow>
                    if ws \<noteq> [] then Inr (dict_set w run_env ''WINESERVER'' ws) else Inr w)
          else Inr w)"

text \<open>
  Lines 164 to 171 of \<open>_run\<close>: the separator appended to the log file when a log path
  is given, then the child process and its exit status. \<open>subprocess\<close> reads \<open>args[0]\<close>, so
  an empty command raises \<open>IndexError\<close> and starts nothing.
\<close>

definition launch :: "world \<Rightarrow> string list \<Rightarrow> ref \<Rightarrow> path option \<Rightarrow> (error + int) \<times> world" where
  "launch w cmd run_env log_path =
     (let w = (case log_path of
                 None \<Rightarrow> w
               | Some lp \<Rightarrow>
                   w\<lparr>written := written w @
                       [(path_str lp,
                         [CHR 0x0A, CHR 0x0A] @ ''$ '' @ join '' '' cmd @ [CHR 0x0A]
                         @ ''--- '' @ ctime w @ '' ---'' @ [CHR 0x0A])]\<rparr>)
      in case cmd of
           [] \<Rightarrow> (Inl IndexError, w)
         | _ # _ \<Rightarrow>
             (case proc_exit w cmd (heap w run_env) of
                None \<Rightarrow> (Inl OSError, w)
              | Some rc \<Rightarrow> (Inr rc, w\<lparr>spawned := spawned w @ [(cmd, heap w run_env)]\<rparr>)))"

text \<open>
  \<open>_run(cmd, env, log_path, sandbox, allow_downloads, sandbox_mode, extra_binds)\<close>. \<open>env\<close> is
  the reference of the caller's dictionary, or \<open>None\<close>; an empty dictionary is falsy, as
  \<open>None\<close> is. The result is the exit status or the error raised, with the machine as the
  call leaves it.
\<close>

definition run ::
  "world \<Rightarrow> string list \<Rightarrow> ref option \<Rightarrow> path option \<Rightarrow> bool \<Rightarrow> bool \<Rightarrow> string
     \<Rightarrow> string list option \<Rightarrow> (error + int) \<times> world" where
  "run w cmd env log_path sandbox allow_downloads sandbox_mode extra_binds =
     (let (base, w) = (case env of
                         None \<Rightarrow> alloc w (environ w)
                       | Some e \<Rightarrow> if heap w e = [] then alloc w (environ w) else (e, w));
          (run_env, w) = alloc w (heap w base)
      in if sandbox then
           (if \<not> truthy (which w ''bwrap'') then (Inl SandboxUnavailable, w)
            else
              (case resolve_cmd w cmd of
                 Inl e \<Rightarrow> (Inl e, w)
               | Inr cmd \<Rightarrow>
                   (case wineserver_env w run_env cmd of
                      Inl e \<Rightarrow> (Inl e, w)
                    | Inr w \<Rightarrow>
                        (case wrap_bwrap w cmd sandbox_mode allow_downloads extra_binds of
                           Inl e \<Rightarrow> (Inl e, w)
                         | Inr cmd \<Rightarrow> launch w cmd run_env log_path))))
         else launch w cmd run_env log_path)"

section \<open>Installing\<close>

text \<open>\<open>_resolve_installer_path(installer_path)\<close>.\<close>

definition resolve_installer_path :: "world \<Rightarrow> string \<Rightarrow> error + string" where
  "resolve_installer_path w installer_path =
     (let raw = expanduser w installer_path
      in case (if \<exists>ch \<in> set ''*?[''. ch \<in> set raw
               then (case sort (glob w raw) of
                       [] \<Rightarrow> Inl (NoInstallerMatched raw)
                     | m # _ \<Rightarrow> Inr m)
               else Inr raw) of
           Inl e \<Rightarrow> Inl e
         | Inr raw \<Rightarrow>
             let installer = resolve_path w raw
             in if \<not> path_exists w installer then Inl (InstallerNotFound installer)
                else Inr installer)"

text \<open>
  \<open>install(cfg, installer_path, portable, sandbox_install)\<close>. The configuration
  dictionary is passed in and returned, updated in the portable branch.
\<close>

definition install ::
  "world \<Rightarrow> cfg \<Rightarrow> string \<Rightarrow> bool \<Rightarrow> bool \<Rightarrow> (error + cfg) \<times> world" where
  "install w cfg installer_path portable sandbox_install =
     (let pfx = cfg_prefix cfg;
          (env, w) = env_for w pfx;
          log = LOG_DIR w @ [cfg_name cfg, ''install.log'']
      in case resolve_installer_path w installer_path of
           Inl e \<Rightarrow> (Inl e, w)
         | Inr installer \<Rightarrow>
             if portable then
               let appdir = APPS_DIR w @ [cfg_name cfg];
                   dst = appdir @ [basename installer];
                   w = w\<lparr>copied := copied w @ [(installer, path_str dst)],
                         path_exists := (path_exists w)(path_str appdir := True, path_str dst := True)\<rparr>;
                   conv = [''winepath'', ''-w'', path_str dst]
               in case proc_exit w conv (heap w env) of
                    None \<Rightarrow> (Inl OSError, w)
                  | Some returncode \<Rightarrow>
                      let w = w\<lparr>spawned := spawned w @ [(conv, heap w env)]\<rparr>;
                          winpath = (if returncode = 0 then winepath_out w (path_str dst) else [])
                      in if winpath \<noteq> [] then
                           let cfg = cfg\<lparr>cfg_last_exe := winpath\<rparr>
                           in (Inr cfg, w\<lparr>saved := saved w @ [(cfg_name cfg, cfg)]\<rparr>)
                         else (Inr cfg, w)
             else
               (case run w [''wine'', installer] (Some env) (Some log) sandbox_install True
                       ''full'' None of
                  (Inl e, w) \<Rightarrow> (Inl e, w)
                | (Inr rc, w) \<Rightarrow>
                    if rc \<noteq> 0 then (Inl (InstallerFailed rc (path_str log)), w)
                    else (Inr cfg, w)))"

section \<open>Executable autodetection\<close>

definition skip_names :: "string set" where
  "skip_names =
     {''iexplore.exe'', ''wmplayer.exe'', ''notepad.exe'', ''wordpad.exe'', ''explorer.exe'',
      ''rundll32.exe'', ''regedit.exe'', ''taskmgr.exe'', ''mshta.exe'', ''cmd.exe'',
      ''powershell.exe'', ''conhost.exe'', ''winecfg.exe'', ''uninstaller.exe'', ''setup.exe''}"

definition skip_dir_tokens :: "string list" where
  "skip_dir_tokens =
     [''Internet Explorer'', ''Windows Media Player'', ''Windows NT'', ''Common Files'']"

definition prefer_names :: "string set" where
  "prefer_names = {''7zfm.exe'', ''notepad++.exe'', ''launcher.exe'', ''start.exe'', ''app.exe''}"

text \<open>
  The nested function \<open>score(path)\<close>; Python compares the tuples lexicographically. The
  third key is \<open>len(str(path))\<close>, the number of characters of an ASCII path.
\<close>

definition score :: "path \<Rightarrow> nat \<times> nat \<times> nat" where
  "score p =
     (let name = lower (path_name p);
          preferred = (if name \<in> prefer_names then 0 else 1);
          depth = length p;
          len = length (path_str p)
      in (preferred, depth, len))"

text \<open>The loop over \<open>scan_roots\<close> that collects the candidates.\<close>

definition exe_candidates :: "world \<Rightarrow> path \<Rightarrow> path list" where
  "exe_candidates w drive_c =
     (let scan_roots = [drive_c @ [''Program Files''], drive_c @ [''Program Files (x86)'']]
      in concat (map (\<lambda>root. if path_exists w (path_str root) then rglob_exe w root else [])
                     scan_roots))"

text \<open>The test of the filtering loop: true for a candidate that is kept.\<close>

definition exe_kept :: "path \<Rightarrow> bool" where
  "exe_kept p =
     (if lower (path_name p) \<in> skip_names then False
      else if \<exists>tok \<in> set skip_dir_tokens. sublist tok (path_str p) then False
      else True)"

text \<open>\<open>s.replace("/", "\\")\<close>.\<close>

definition to_backslashes :: "string \<Rightarrow> string" where
  "to_backslashes s = map (\<lambda>c. if c = CHR ''/'' then CHR 0x5C else c) s"

text \<open>
  \<open>_autodetect_exe(prefix)\<close>. \<open>sorted\<close> is stable, as \<^const>\<open>sort_key\<close> is: among candidates
  of equal score the one met first by the walk comes first.
\<close>

definition autodetect_exe :: "world \<Rightarrow> path \<Rightarrow> error + string" where
  "autodetect_exe w pfx =
     (let drive_c = pfx @ [''drive_c''];
          candidates = exe_candidates w drive_c
      in if candidates = [] then Inr []
         else
           let filtered = filter exe_kept candidates
           in if filtered = [] then Inr []
              else
                case sort_key score filtered of
                  [] \<Rightarrow> Inl IndexError
                | best # _ \<Rightarrow>
                    (case relative_to best drive_c of
                       Inl e \<Rightarrow> Inl e
                     | Inr rel \<Rightarrow> Inr ([CHR ''C'', CHR '':'', CHR 0x5C] @ to_backslashes (path_str rel))))"

section \<open>The sections of a policy\<close>

text \<open>
  The argument vector that \<open>wrap_bwrap\<close> builds, cut at the comments of the source: the
  fixed directives of lines 58 to 74, the device, session and display binds of lines 76
  to 90, and the binds of the mode of lines 94 to 109.
\<close>

definition always_present :: "string list" where
  "always_present =
     [''--unshare-all'', ''--share-net'', ''--die-with-parent'', ''--new-session'',
      ''--dev-bind'', ''/dev'', ''/dev'',
      ''--ro-bind'', ''/'', ''/'',
      ''--proc'', ''/proc'',
      ''--tmpfs'', ''/tmp'']"

definition display_binds :: "world \<Rightarrow> string list" where
  "display_binds w =
     (if path_exists w ''/dev/dri'' then [''--dev-bind'', ''/dev/dri'', ''/dev/dri''] else [])
     @ (case map_of (environ w) ''XDG_RUNTIME_DIR'' of
          None \<Rightarrow> []
        | Some xdg_rt \<Rightarrow>
            if xdg_rt \<noteq> [] \<and> path_exists w xdg_rt then [''--bind'', xdg_rt, xdg_rt] else [])
     @ (if truthy (map_of (environ w) ''DISPLAY'')
        then (if path_exists w ''/tmp/.X11-unix''
              then [''--bind'', ''/tmp/.X11-unix'', ''/tmp/.X11-unix''] else [])
           @ (if path_exists w ''/tmp/.ICE-unix''
              then [''--bind'', ''/tmp/.ICE-unix'', ''/tmp/.ICE-unix''] else [])
        else [])"

text \<open>The path of the X authority file that strict mode looks for (line 107).\<close>

definition xauth_path :: "world \<Rightarrow> string" where
  "xauth_path w =
     (case map_of (environ w) ''XAUTHORITY'' of
        None \<Rightarrow> path_str (home_dir w @ [''.Xauthority''])
      | Some x \<Rightarrow> if x \<noteq> [] then x else path_str (home_dir w @ [''.Xauthority'']))"

definition mode_binds :: "world \<Rightarrow> string \<Rightarrow> bool \<Rightarrow> string list" where
  "mode_binds w mode allow_downloads =
     (let home = path_str (home_dir w);
          norun_root = path_str (home_dir w @ [''.local'', ''share'', ''norun'']);
          downloads = path_str (home_dir w @ [''Downloads''])
      in if mode = ''full''
         then [''--bind'', home, home]
            @ (if allow_downloads \<and> path_exists w downloads
               then [''--bind'', downloads, downloads] else [])
         else (if path_exists w norun_root then [''--bind'', norun_root, norun_root] else [])
            @ (if allow_downloads \<and> path_exists w downloads
               then [''--bind'', downloads, downloads] else [])
            @ (if xauth_path w \<noteq> [] \<and> path_exists w (xauth_path w)
               then [''--ro-bind'', xauth_path w, xauth_path w] else []))"

text \<open>\<open>extra_binds\<close> as the list that is appended: nothing for \<open>None\<close>.\<close>

definition extras :: "string list option \<Rightarrow> string list" where
  "extras extra_binds = (case extra_binds of None \<Rightarrow> [] | Some e \<Rightarrow> e)"

text \<open>The same two sections as directives.\<close>

definition display_dirs :: "world \<Rightarrow> directive list" where
  "display_dirs w =
     (if path_exists w ''/dev/dri'' then [Bind ''--dev-bind'' ''/dev/dri'' ''/dev/dri''] else [])
     @ (case map_of (environ w) ''XDG_RUNTIME_DIR'' of
          None \<Rightarrow> []
        | Some xdg_rt \<Rightarrow>
            if xdg_rt \<noteq> [] \<and> path_exists w xdg_rt then [Bind ''--bind'' xdg_rt xdg_rt] else [])
     @ (if truthy (map_of (environ w) ''DISPLAY'')
        then (if path_exists w ''/tmp/.X11-unix''
              then [Bind ''--bind'' ''/tmp/.X11-unix'' ''/tmp/.X11-unix''] else [])
           @ (if path_exists w ''/tmp/.ICE-unix''
              then [Bind ''--bind'' ''/tmp/.ICE-unix'' ''/tmp/.ICE-unix''] else [])
        else [])"

definition mode_dirs :: "world \<Rightarrow> string \<Rightarrow> bool \<Rightarrow> directive list" where
  "mode_dirs w mode allow_downloads =
     (let home = path_str (home_dir w);
          norun_root = path_str (home_dir w @ [''.local'', ''share'', ''norun'']);
          downloads = path_str (home_dir w @ [''Downloads''])
      in if mode = ''full''
         then [Bind ''--bind'' home home]
            @ (if allow_downloads \<and> path_exists w downloads
               then [Bind ''--bind'' downloads downloads] else [])
         else (if path_exists w norun_root then [Bind ''--bind'' norun_root norun_root] else [])
            @ (if allow_downloads \<and> path_exists w downloads
               then [Bind ''--bind'' downloads downloads] else [])
            @ (if xauth_path w \<noteq> [] \<and> path_exists w (xauth_path w)
               then [Bind ''--ro-bind'' (xauth_path w) (xauth_path w)] else []))"

text \<open>What \<open>str\<close> puts before the last part of a path.\<close>

definition path_pre :: "path \<Rightarrow> string" where
  "path_pre h = (if h = [] then [] else if h = [''/''] then ''/'' else path_str h @ ''/'')"

section \<open>Concrete hosts\<close>

text \<open>
  A desktop session of user \<open>u\<close>: GPU node, session runtime directory and X11 socket
  directory exist, the private data root and the X authority file do not.
\<close>

definition host_u :: world where
  "host_u =
     \<lparr>home_dir = [''/'', ''home'', ''u''],
      environ = [(''XDG_RUNTIME_DIR'', ''/run/user/1000''), (''DISPLAY'', '':0'')],
      path_exists = List.member [''/'', ''/dev'', ''/dev/dri'', ''/run/user/1000'',
                                 ''/tmp/.X11-unix'', ''/home/u'', ''/home/u/Downloads'',
                                 ''/home/u/setup.exe''],
      which = map_of [(''bwrap'', ''/usr/bin/bwrap''), (''wine'', ''/usr/bin/wine''),
                      (''wineserver'', ''/usr/bin/wineserver'')],
      rglob_exe = (\<lambda>root. []),
      CACHE_DIR = [''/'', ''home'', ''u'', ''.cache'', ''norun''],
      LOG_DIR = [''/'', ''home'', ''u'', ''.local'', ''share'', ''norun'', ''logs''],
      APPS_DIR = [''/'', ''home'', ''u'', ''.local'', ''share'', ''norun'', ''apps''],
      heap = (\<lambda>r. []),
      fresh = 0,
      proc_exit = (\<lambda>cmd env. Some 0),
      spawned = [],
      ctime = ''Tue Nov  3 12:00:00 2026'',
      written = [],
      expanduser = id,
      glob = (\<lambda>pattern. []),
      resolve_path = id,
      winepath_out = (\<lambda>p. []),
      copied = [],
      saved = []\<rparr>"

text \<open>The same host before the home directory of \<open>u\<close> was created.\<close>

definition host_no_home :: world where
  "host_no_home = host_u\<lparr>path_exists := List.member [''/'', ''/dev'']\<rparr>"

text \<open>The same host, started with \<open>WINEDEBUG=\<close> (set, and empty) in the environment.\<close>

definition host_debug :: world where
  "host_debug = host_u\<lparr>environ := [(''WINEDEBUG'', ''''), (''HOME'', ''/home/u'')]\<rparr>"

section \<open>Frames\<close>

text \<open>
  \<open>frame w w'\<close>: from \<open>w\<close> to \<open>w'\<close> the process environment and every dictionary that
  existed in \<open>w\<close> are unchanged. \<open>same_host w w'\<close>: the two agree on the probes that the
  supervisor and the installer read and on the processes started.
\<close>

definition frame :: "world \<Rightarrow> world \<Rightarrow> bool" where
  "frame w w' \<longleftrightarrow>
     environ w' = environ w \<and> fresh w \<le> fresh w' \<and> (\<forall>r < fresh w. heap w' r = heap w r)"

definition same_host :: "world \<Rightarrow> world \<Rightarrow> bool" where
  "same_host w w' \<longleftrightarrow>
     home_dir w' = home_dir w \<and> environ w' = environ w \<and> path_exists w' = path_exists w \<and>
     which w' = which w \<and> proc_exit w' = proc_exit w \<and> spawned w' = spawned w \<and>
     LOG_DIR w' = LOG_DIR w \<and> expanduser w' = expanduser w \<and> glob w' = glob w \<and>
     resolve_path w' = resolve_path w"

text \<open>The host of user \<open>u\<close> with one dictionary in the store, a caller's environment.\<close>

definition host_env :: world where
  "host_env = host_u\<lparr>heap := (\<lambda>r. [])(0 := [(''WINEPREFIX'', ''/pfx'')]), fresh := 1\<rparr>"



text \<open>An app whose persisted sandbox mode is \<open>strict\<close>.\<close>

definition cfg_strict :: cfg where
  "cfg_strict =
     \<lparr>cfg_name = ''app'', cfg_profile = ''general'', cfg_runner = ''wine'',
      cfg_prefix = [''/'', ''home'', ''u'', ''.local'', ''share'', ''norun'', ''prefixes'', ''app''],
      cfg_last_exe = [], cfg_sandbox = True, cfg_sandbox_mode = ''strict''\<rparr>"

section \<open>Walks of a prefix\<close>

text \<open>
  What \<open>root.rglob("*.exe")\<close> yields are paths strictly below \<open>root\<close>, made of \<open>root\<close> and
  of names of directory entries, which hold no separator. The pattern is matched with the
  case of the letters as it is: a file \<open>SETUP.EXE\<close> is not yielded, \<open>Setup.exe\<close> is.
\<close>

definition below :: "path \<Rightarrow> path \<Rightarrow> bool" where
  "below root p \<longleftrightarrow>
     prefix root p \<and> length root < length p \<and>
     (\<forall>part \<in> set (drop (length root) p). CHR ''/'' \<notin> set part)"

text \<open>
  The filter and the order in the words of the specification, to be compared with
  \<^const>\<open>exe_kept\<close> and \<^const>\<open>score\<close> of the code. A candidate is denied when its
  lowercased file name is on the deny list or its path string holds a denied directory
  token. A candidate beats another when it alone has a preferred name or, both or neither
  having one, it has fewer parts or, with as many parts, the shorter path string.
\<close>

definition denied :: "path \<Rightarrow> bool" where
  "denied p \<longleftrightarrow>
     lower (path_name p) \<in> skip_names \<or> (\<exists>tok \<in> set skip_dir_tokens. sublist tok (path_str p))"

definition beats :: "path \<Rightarrow> path \<Rightarrow> bool" where
  "beats p q \<longleftrightarrow>
     (lower (path_name p) \<in> prefer_names \<and> lower (path_name q) \<notin> prefer_names) \<or>
     ((lower (path_name p) \<in> prefer_names \<longleftrightarrow> lower (path_name q) \<in> prefer_names) \<and>
      (length p < length q \<or>
       (length p = length q \<and> length (path_str p) < length (path_str q))))"

text \<open>A path relative to the drive root in the syntax of Windows: \<open>C:\<close>, then the parts, each after a backslash.\<close>

definition windows_path :: "path \<Rightarrow> string" where
  "windows_path rel = [CHR ''C'', CHR '':'', CHR 0x5C] @ join [CHR 0x5C] rel"

text \<open>
  The host of user \<open>u\<close> with a prefix \<open>/pfx\<close> whose \<open>Program Files\<close> holds the executables
  \<open>found\<close>, in the order in which the walk yields them; there is no \<open>Program Files (x86)\<close>.
\<close>

definition program_files :: path where
  "program_files = [''/'', ''pfx'', ''drive_c'', ''Program Files'']"

definition host_walk :: "path list \<Rightarrow> world" where
  "host_walk found =
     host_u\<lparr>path_exists := List.member [''/pfx/drive_c/Program Files''],
            rglob_exe := (\<lambda>root. if root = program_files then found else [])\<rparr>"

text \<open>
  An installed application: its uninstaller and a helper next to \<open>Program Files\<close> itself,
  its launcher two directories down, and a shared component.
\<close>

definition exe_uninstaller :: path where
  "exe_uninstaller = program_files @ [''uninstaller.exe'']"

definition exe_z :: path where
  "exe_z = program_files @ [''z.exe'']"

definition exe_launcher :: path where
  "exe_launcher = program_files @ [''MyApp'', ''Deep'', ''LAUNCHER.exe'']"

definition exe_common_x :: path where
  "exe_common_x = program_files @ [''Common Files'', ''x.exe'']"

definition found_app :: "path list" where
  "found_app = [exe_uninstaller, exe_z, exe_launcher, exe_common_x]"

text \<open>Two programs, the second with a preferred name.\<close>

definition exe_tool :: path where
  "exe_tool = program_files @ [''Tool'', ''tool.exe'']"

definition exe_app :: path where
  "exe_app = program_files @ [''MyApp'', ''app.exe'']"

definition found_two :: "path list" where
  "found_two = [exe_tool, exe_app]"

text \<open>Two programs that tie on all three keys.\<close>

definition exe_one :: path where
  "exe_one = program_files @ [''A'', ''one.exe'']"

definition exe_two :: path where
  "exe_two = program_files @ [''B'', ''two.exe'']"

definition found_tie :: "path list" where
  "found_tie = [exe_one, exe_two]"

text \<open>An installer with capitals in its name, and a directory named like a denied token, in lower case and as the token is written.\<close>

definition exe_setup :: path where
  "exe_setup = program_files @ [''App'', ''Setup.exe'']"

definition exe_lc :: path where
  "exe_lc = program_files @ [''common files'', ''tool.exe'']"

definition exe_uc :: path where
  "exe_uc = program_files @ [''Common Files'', ''tool.exe'']"

section \<open>Lemmas on paths\<close>

lemma join_snoc: "join sep (xs @ [x]) = (if xs = [] then x else join sep xs @ sep @ x)"
  by (induction sep xs rule: join.induct) auto

lemma join_snoc_Cons: "join sep (a # xs @ [x]) = join sep (a # xs) @ sep @ x"
  using join_snoc[of sep "a # xs" x] by simp

lemma path_str_snoc: "path_str (h @ [x]) = path_pre h @ x"
proof (cases h)
  case Nil
  then show ?thesis by (simp add: path_pre_def)
next
  case (Cons a ps)
  then show ?thesis by (cases ps) (auto simp: path_pre_def join_snoc_Cons)
qed

lemma path_str_nonempty: "x \<noteq> [] \<Longrightarrow> path_str (h @ [x]) \<noteq> []"
  by (simp add: path_str_snoc)

lemma home_neq_child:
  assumes "2 \<le> length x"
  shows "path_str (h @ [x]) \<noteq> path_str h"
proof
  assume "path_str (h @ [x]) = path_str h"
  then have "length (path_pre h @ x) = length (path_str h)"
    by (simp add: path_str_snoc)
  moreover have "length (path_str h) < length (path_pre h @ x)"
    using assms by (cases h) (auto simp: path_pre_def)
  ultimately show False by simp
qed

lemma norun_root_str:
  "path_str (h @ [''.local'', ''share'', ''norun'']) = path_pre h @ ''.local/share/norun''"
proof -
  have "path_str (((h @ [''.local'']) @ [''share'']) @ [''norun''])
        = path_pre ((h @ [''.local'']) @ [''share'']) @ ''norun''"
    by (rule path_str_snoc)
  also have "path_pre ((h @ [''.local'']) @ [''share'']) = path_str ((h @ [''.local'']) @ [''share'']) @ ''/''"
    by (simp add: path_pre_def)
  also have "path_str ((h @ [''.local'']) @ [''share'']) = path_pre (h @ [''.local'']) @ ''share''"
    by (rule path_str_snoc)
  also have "path_pre (h @ [''.local'']) = path_str (h @ [''.local'']) @ ''/''"
    by (simp add: path_pre_def)
  also have "path_str (h @ [''.local'']) = path_pre h @ ''.local''"
    by (rule path_str_snoc)
  finally show ?thesis by simp
qed

lemma norun_neq_home: "path_str (h @ [''.local'', ''share'', ''norun'']) \<noteq> path_str h"
proof
  assume "path_str (h @ [''.local'', ''share'', ''norun'']) = path_str h"
  then have "length (path_pre h @ ''.local/share/norun'') = length (path_str h)"
    by (simp add: norun_root_str)
  moreover have "length (path_str h) < length (path_pre h @ ''.local/share/norun'')"
    by (cases h) (auto simp: path_pre_def)
  ultimately show False by simp
qed

lemma norun_neq_downloads:
  "path_str (h @ [''.local'', ''share'', ''norun'']) \<noteq> path_str (h @ [''Downloads''])"
  by (simp add: norun_root_str path_str_snoc)

lemma downloads_neq_home: "path_str (h @ [''Downloads'']) \<noteq> path_str h"
  by (rule home_neq_child) simp

lemma downloads_last: "last (path_str (h @ [''Downloads''])) = CHR ''s''"
  by (simp add: path_str_snoc)

lemma downloads_neq_sockets:
  "path_str (h @ [''Downloads'']) \<noteq> ''/tmp/.X11-unix''"
  "path_str (h @ [''Downloads'']) \<noteq> ''/tmp/.ICE-unix''"
  using downloads_last[of h] by auto

section \<open>Lemmas on the policy builder\<close>

lemma wrap_bwrap_sections:
  "mode \<in> {''full'', ''strict''} \<Longrightarrow>
   wrap_bwrap w cmd mode ad extra =
     Inr (''bwrap'' # always_present @ display_binds w @ mode_binds w mode ad @ extras extra
          @ ''--'' # cmd)"
  unfolding wrap_bwrap_def always_present_def display_binds_def mode_binds_def extras_def
    xauth_path_def Let_def
  by (simp split: option.split)

lemma wrap_bwrap_invalid:
  "mode \<notin> {''full'', ''strict''} \<Longrightarrow> wrap_bwrap w cmd mode ad extra = Inl InvalidMode"
  by (simp add: wrap_bwrap_def)

lemma directives_bind:
  "f \<in> {''--bind'', ''--ro-bind'', ''--dev-bind''} \<Longrightarrow>
   directives (f # s # d # rest) = Bind f s d # directives rest"
  by auto

lemma directives_always:
  "directives (always_present @ rest) =
     [Flag ''--unshare-all'', Flag ''--share-net'', Flag ''--die-with-parent'',
      Flag ''--new-session'', Bind ''--dev-bind'' ''/dev'' ''/dev'',
      Bind ''--ro-bind'' ''/'' ''/'', Mount ''--proc'' ''/proc'', Mount ''--tmpfs'' ''/tmp'']
     @ directives rest"
  by (simp add: always_present_def)

lemma directives_display:
  "directives (display_binds w @ rest) = display_dirs w @ directives rest"
  by (simp add: display_binds_def display_dirs_def split: option.split)

lemma directives_mode:
  "directives (mode_binds w mode ad @ rest) = mode_dirs w mode ad @ directives rest"
  by (simp add: mode_binds_def mode_dirs_def Let_def)

lemma directives_wrap:
  assumes "mode \<in> {''full'', ''strict''}"
  shows "\<exists>out. wrap_bwrap w cmd mode ad extra = Inr out \<and>
           directives (tl out) =
             directives always_present @ display_dirs w @ mode_dirs w mode ad
             @ directives (extras extra @ ''--'' # cmd)"
  using wrap_bwrap_sections[OF assms, of w cmd ad extra] directives_always[of "[]"]
  by (simp add: directives_always directives_display directives_mode)

section \<open>Lemmas on dictionaries and the store\<close>

lemma map_of_update:
  "map_of (AList.update k v al) k' = (if k' = k then Some v else map_of al k')"
  by (simp add: update_conv')

lemma frame_refl: "frame w w"
  by (simp add: frame_def)

lemma frame_trans: "frame w w1 \<Longrightarrow> frame w1 w2 \<Longrightarrow> frame w w2"
  by (auto simp: frame_def)

lemma frame_alloc: "alloc w d = (r, w') \<Longrightarrow> frame w w' \<and> r = fresh w \<and> r < fresh w'"
  by (auto simp: alloc_def frame_def)

lemma frame_dict_set: "fresh w0 \<le> r \<Longrightarrow> frame w0 w \<Longrightarrow> frame w0 (dict_set w r k v)"
  by (auto simp: dict_set_def frame_def)

lemma frame_launch: "launch w cmd run_env lp = (res, w') \<Longrightarrow> frame w w'"
  by (auto simp: launch_def frame_def Let_def split: option.splits list.splits)

lemma frame_wineserver_env:
  "wineserver_env w r cmd = Inr w' \<Longrightarrow> fresh w0 \<le> r \<Longrightarrow> frame w0 w \<Longrightarrow> frame w0 w'"
  by (auto simp: wineserver_env_def frame_dict_set split: list.splits if_splits option.splits)

lemma same_host_refl: "same_host w w"
  by (simp add: same_host_def)

lemma same_host_trans: "same_host w w1 \<Longrightarrow> same_host w1 w2 \<Longrightarrow> same_host w w2"
  by (simp add: same_host_def)

lemma same_host_alloc: "alloc w d = (r, w') \<Longrightarrow> same_host w w'"
  by (auto simp: same_host_def alloc_def)

lemma same_host_dict_set: "same_host w (dict_set w r k v)"
  by (simp add: same_host_def dict_set_def)

lemma same_host_wineserver_env: "wineserver_env w r cmd = Inr w' \<Longrightarrow> same_host w w'"
  by (auto simp: wineserver_env_def same_host_dict_set same_host_refl
           split: list.splits if_splits option.splits)

lemma same_host_env_for: "env_for w pfx = (r, w') \<Longrightarrow> same_host w w'"
  by (auto simp: env_for_def alloc_def dict_set_def dict_setdefault_def Let_def same_host_def
           split: option.splits)

lemma same_host_wrap_bwrap:
  assumes "same_host w w'"
  shows "wrap_bwrap w' cmd sm ad ex = wrap_bwrap w cmd sm ad ex"
proof -
  have e: "home_dir w' = home_dir w" "environ w' = environ w" "path_exists w' = path_exists w"
    using assms by (simp_all add: same_host_def)
  show ?thesis unfolding wrap_bwrap_def e ..
qed

lemma wineserver_env_Cons: "\<exists>w'. wineserver_env w r (c # rest) = Inr w'"
  by (simp add: wineserver_env_def split: option.split)

lemma same_host_resolve_cmd: "same_host w w' \<Longrightarrow> resolve_cmd w' cmd = resolve_cmd w cmd"
  by (auto simp: same_host_def resolve_cmd_def split: list.splits option.splits)

lemma same_host_resolve_installer_path:
  "same_host w w' \<Longrightarrow> resolve_installer_path w' p = resolve_installer_path w p"
  by (auto simp: same_host_def resolve_installer_path_def Let_def
           split: list.splits sum.splits if_splits)

lemma run_unfold:
  "\<exists>run_env w2. same_host w w2 \<and> frame w w2 \<and> fresh w \<le> run_env \<and>
     run w cmd env lp sb ad sm ex =
       (if sb then
          (if \<not> truthy (which w2 ''bwrap'') then (Inl SandboxUnavailable, w2)
           else
             (case resolve_cmd w2 cmd of
                Inl e \<Rightarrow> (Inl e, w2)
              | Inr cmd \<Rightarrow>
                  (case wineserver_env w2 run_env cmd of
                     Inl e \<Rightarrow> (Inl e, w2)
                   | Inr w \<Rightarrow>
                       (case wrap_bwrap w cmd sm ad ex of
                          Inl e \<Rightarrow> (Inl e, w)
                        | Inr cmd \<Rightarrow> launch w cmd run_env lp))))
        else launch w2 cmd run_env lp)"
proof -
  obtain base w1 where b: "(case env of
                         None \<Rightarrow> alloc w (environ w)
                       | Some e \<Rightarrow> if heap w e = [] then alloc w (environ w) else (e, w)) = (base, w1)"
    by (cases "(case env of
                         None \<Rightarrow> alloc w (environ w)
                       | Some e \<Rightarrow> if heap w e = [] then alloc w (environ w) else (e, w))")
  have f1: "frame w w1"
    using b frame_alloc[of w "environ w"] frame_refl[of w]
    by (auto split: option.splits if_splits)
  have s1: "same_host w w1"
    using b same_host_alloc[of w "environ w"] same_host_refl[of w]
    by (auto split: option.splits if_splits)
  obtain run_env w2 where a: "alloc w1 (heap w1 base) = (run_env, w2)"
    by (cases "alloc w1 (heap w1 base)")
  have f2: "frame w w2" and ge: "fresh w \<le> run_env"
    using frame_alloc[OF a] f1 frame_trans[of w w1 w2] by (auto simp: frame_def)
  have s2: "same_host w w2"
    using same_host_alloc[OF a] s1 same_host_trans by blast
  have "run w cmd env lp sb ad sm ex =
           (if sb then
             (if \<not> truthy (which w2 ''bwrap'') then (Inl SandboxUnavailable, w2)
              else
                (case resolve_cmd w2 cmd of
                   Inl e \<Rightarrow> (Inl e, w2)
                 | Inr cmd \<Rightarrow>
                     (case wineserver_env w2 run_env cmd of
                        Inl e \<Rightarrow> (Inl e, w2)
                      | Inr w \<Rightarrow>
                          (case wrap_bwrap w cmd sm ad ex of
                             Inl e \<Rightarrow> (Inl e, w)
                           | Inr cmd \<Rightarrow> launch w cmd run_env lp))))
           else launch w2 cmd run_env lp)"
    unfolding run_def b a Let_def prod.case ..
  then show ?thesis using s2 f2 ge by blast
qed

lemma run_frame:
  assumes "run w cmd env lp sb ad sm ex = (res, w')"
  shows "frame w w'"
proof -
  obtain run_env w2 where f2: "frame w w2" and ge: "fresh w \<le> run_env"
    and r: "run w cmd env lp sb ad sm ex =
       (if sb then
          (if \<not> truthy (which w2 ''bwrap'') then (Inl SandboxUnavailable, w2)
           else
             (case resolve_cmd w2 cmd of
                Inl e \<Rightarrow> (Inl e, w2)
              | Inr cmd \<Rightarrow>
                  (case wineserver_env w2 run_env cmd of
                     Inl e \<Rightarrow> (Inl e, w2)
                   | Inr w \<Rightarrow>
                       (case wrap_bwrap w cmd sm ad ex of
                          Inl e \<Rightarrow> (Inl e, w)
                        | Inr cmd \<Rightarrow> launch w cmd run_env lp))))
        else launch w2 cmd run_env lp)"
    using run_unfold[of w cmd env lp sb ad sm ex] by blast
  show ?thesis
  proof (cases sb)
    case False
    then have "launch w2 cmd run_env lp = (res, w')"
      using assms r by simp
    then show ?thesis using f2 frame_launch frame_trans by blast
  next
    case True
    show ?thesis
    proof (cases "truthy (which w2 ''bwrap'')")
      case False
      then show ?thesis using assms r True f2 by auto
    next
      case bw: True
      show ?thesis
      proof (cases "resolve_cmd w2 cmd")
        case (Inl e)
        then show ?thesis using assms r True bw f2 by auto
      next
        case (Inr cmd1)
        show ?thesis
        proof (cases "wineserver_env w2 run_env cmd1")
          case (Inl e)
          then show ?thesis using assms r True bw Inr f2 by auto
        next
          case ws: (Inr w3)
          have f3: "frame w w3" using frame_wineserver_env[OF ws ge f2] .
          show ?thesis
          proof (cases "wrap_bwrap w3 cmd1 sm ad ex")
            case (Inl e)
            then show ?thesis using assms r True bw Inr ws f3 by auto
          next
            case wb: (Inr cmd2)
            then have "launch w3 cmd2 run_env lp = (res, w')"
              using assms r True bw Inr ws by auto
            then show ?thesis using f3 frame_launch frame_trans by blast
          qed
        qed
      qed
    qed
  qed
qed

lemma launch_spawn:
  assumes "launch w out r lp = (res, w')" and "out \<noteq> []"
  shows "case proc_exit w out (heap w r) of
           None \<Rightarrow> res = Inl OSError \<and> spawned w' = spawned w
         | Some rc \<Rightarrow> res = Inr rc \<and> spawned w' = spawned w @ [(out, heap w r)]"
  using assms by (auto simp: launch_def Let_def split: option.splits list.splits)

lemma wrap_bwrap_nonempty:
  assumes "wrap_bwrap w cmd sm ad ex = Inr out"
  shows "out \<noteq> []"
proof (cases "sm \<in> {''full'', ''strict''}")
  case True
  from wrap_bwrap_sections[OF True, of w cmd ad ex] assms show ?thesis by auto
next
  case False
  then show ?thesis using assms wrap_bwrap_invalid[of sm w cmd ad ex] by simp
qed



lemma run_sandbox_launch:
  assumes "truthy (which w ''bwrap'')" and "resolve_cmd w cmd = Inr (c # rest)"
    and "wrap_bwrap w (c # rest) sm ad ex = Inr out"
    and "run w cmd env lp True ad sm ex = (res, w')"
  shows "\<exists>en. case proc_exit w out en of
                None \<Rightarrow> res = Inl OSError \<and> spawned w' = spawned w
              | Some rc \<Rightarrow> res = Inr rc \<and> spawned w' = spawned w @ [(out, en)]"
proof -
  obtain run_env w2 where s2: "same_host w w2"
    and r: "run w cmd env lp True ad sm ex =
       (if True then
          (if \<not> truthy (which w2 ''bwrap'') then (Inl SandboxUnavailable, w2)
           else
             (case resolve_cmd w2 cmd of
                Inl e \<Rightarrow> (Inl e, w2)
              | Inr cmd \<Rightarrow>
                  (case wineserver_env w2 run_env cmd of
                     Inl e \<Rightarrow> (Inl e, w2)
                   | Inr w \<Rightarrow>
                       (case wrap_bwrap w cmd sm ad ex of
                          Inl e \<Rightarrow> (Inl e, w)
                        | Inr cmd \<Rightarrow> launch w cmd run_env lp))))
        else launch w2 cmd run_env lp)"
    using run_unfold[of w cmd env lp True ad sm ex] by blast
  obtain w3 where ws: "wineserver_env w2 run_env (c # rest) = Inr w3"
    using wineserver_env_Cons by blast
  have s3: "same_host w w3"
    using same_host_wineserver_env[OF ws] s2 same_host_trans by blast
  have "run w cmd env lp True ad sm ex = launch w3 out run_env lp"
    using r assms(1,2,3) ws s2[unfolded same_host_def] same_host_resolve_cmd[OF s2]
      same_host_wrap_bwrap[OF s3]
    by simp
  then have "launch w3 out run_env lp = (res, w')"
    using assms(4) by simp
  from launch_spawn[OF this wrap_bwrap_nonempty[OF assms(3)]]
  have "case proc_exit w out (heap w3 run_env) of
          None \<Rightarrow> res = Inl OSError \<and> spawned w' = spawned w
        | Some rc \<Rightarrow> res = Inr rc \<and> spawned w' = spawned w @ [(out, heap w3 run_env)]"
    using s3 by (auto simp: same_host_def split: option.splits)
  then show ?thesis by (rule exI[of _ "heap w3 run_env"])
qed




lemma full_binds_home:
  "wrap_bwrap w cmd ''full'' ad ex = Inr out \<Longrightarrow>
   Bind ''--bind'' (path_str (home_dir w)) (path_str (home_dir w)) \<in> set (directives (tl out))"
  using directives_wrap[of "''full''" w cmd ad ex]
  by (auto simp: mode_dirs_def Let_def)

section \<open>Lemmas on executable autodetection\<close>

lemma sort_key_head_min:
  assumes "sort_key f xs = b # rest"
  shows "b \<in> set xs \<and> (\<forall>x \<in> set xs. f b \<le> f x)"
proof -
  have "set (b # rest) = set xs"
    using assms set_sort[of f xs] by simp
  moreover have "sorted (map f (b # rest))"
    using assms sorted_sort_key[of f xs] by simp
  ultimately show ?thesis by auto
qed

lemma sort_key_nonempty: "xs \<noteq> [] \<Longrightarrow> \<exists>b rest. sort_key f xs = b # rest"
  by (metis list.exhaust set_empty set_sort)

lemma relative_to_prefix: "prefix d p \<Longrightarrow> relative_to p d = Inr (drop (length d) p)"
  by (simp add: relative_to_def)

lemma score_le_iff:
  "score p \<le> score q \<longleftrightarrow>
     fst (score p) < fst (score q) \<or>
     (fst (score p) = fst (score q) \<and>
      (length p < length q \<or>
       (length p = length q \<and> length (path_str p) \<le> length (path_str q))))"
  by (auto simp: score_def Let_def less_eq_prod_def)

lemma exe_kept_iff:
  "exe_kept p \<longleftrightarrow>
     lower (path_name p) \<notin> skip_names \<and> (\<forall>tok \<in> set skip_dir_tokens. \<not> sublist tok (path_str p))"
  by (auto simp: exe_kept_def)

lemma autodetect_exe_unfold:
  "autodetect_exe w pfx =
     (case sort_key score (filter exe_kept (exe_candidates w (pfx @ [''drive_c'']))) of
        [] \<Rightarrow> Inr []
      | best # _ \<Rightarrow>
          (case relative_to best (pfx @ [''drive_c'']) of
             Inl e \<Rightarrow> Inl e
           | Inr rel \<Rightarrow> Inr ([CHR ''C'', CHR '':'', CHR 0x5C] @ to_backslashes (path_str rel))))"
proof (cases "filter exe_kept (exe_candidates w (pfx @ [''drive_c''])) = []")
  case True
  then show ?thesis by (simp add: autodetect_exe_def Let_def)
next
  case False
  then have c: "exe_candidates w (pfx @ [''drive_c'']) \<noteq> []" by auto
  obtain b rest
    where "sort_key score (filter exe_kept (exe_candidates w (pfx @ [''drive_c'']))) = b # rest"
    using sort_key_nonempty[OF False] by blast
  then show ?thesis using False c by (simp add: autodetect_exe_def Let_def)
qed


subsection \<open>The specification of autodetection and the code\<close>

lemma exe_candidates_host_walk:
  "exe_candidates (host_walk found) [''/'', ''pfx'', ''drive_c''] = found"
  by (simp add: exe_candidates_def host_walk_def program_files_def Let_def)

lemma denied_iff: "denied p \<longleftrightarrow> \<not> exe_kept p"
  by (auto simp: denied_def exe_kept_def)

lemma beats_iff: "beats p q \<longleftrightarrow> score p < score q"
  by (auto simp: beats_def score_def Let_def less_prod_def)

lemma not_beats_iff: "\<not> beats q p \<longleftrightarrow> score p \<le> score q"
  by (simp add: beats_iff not_less)

lemma to_backslashes_append: "to_backslashes (a @ b) = to_backslashes a @ to_backslashes b"
  by (simp add: to_backslashes_def)

lemma to_backslashes_part: "CHR ''/'' \<notin> set s \<Longrightarrow> to_backslashes s = s"
  by (induction s) (auto simp: to_backslashes_def)

lemma to_backslashes_join:
  "\<forall>part \<in> set rel. CHR ''/'' \<notin> set part \<Longrightarrow>
   to_backslashes (join ''/'' rel) = join [CHR 0x5C] rel"
proof (induction "''/''" rel rule: join.induct)
  case 1
  then show ?case by (simp add: to_backslashes_def)
next
  case (2 x)
  then show ?case by (simp add: to_backslashes_part)
next
  case (3 x y ys)
  then show ?case
    by (simp add: to_backslashes_append to_backslashes_part) (simp add: to_backslashes_def)
qed

lemma render_below:
  assumes "below root p"
  shows "relative_to p root = Inr (drop (length root) p)"
    and "[CHR ''C'', CHR '':'', CHR 0x5C] @ to_backslashes (path_str (drop (length root) p))
           = windows_path (drop (length root) p)"
proof -
  let ?rel = "drop (length root) p"
  have ne: "?rel \<noteq> []" and ns: "\<forall>part \<in> set ?rel. CHR ''/'' \<notin> set part"
    using assms by (auto simp: below_def)
  show "relative_to p root = Inr ?rel"
    using assms by (simp add: below_def relative_to_def)
  obtain a rest where r: "?rel = a # rest" using ne by (cases ?rel) auto
  have "a \<noteq> ''/''" using ns r by auto
  then have "path_str ?rel = join ''/'' ?rel" using r by simp
  then show "[CHR ''C'', CHR '':'', CHR 0x5C] @ to_backslashes (path_str ?rel) = windows_path ?rel"
    using to_backslashes_join[OF ns] by (simp add: windows_path_def)
qed

lemma autodetect_exe_best:
  assumes "sort_key score (filter exe_kept (exe_candidates w (pfx @ [''drive_c''])))
             = best # rest"
    and "below (pfx @ [''drive_c'']) best"
  shows "autodetect_exe w pfx = Inr (windows_path (drop (length (pfx @ [''drive_c''])) best))"
  using assms(1) render_below[OF assms(2)]
  by (simp add: autodetect_exe_unfold)

lemma sort_key_first_min:
  assumes "\<forall>x \<in> set pre. f b < f x" and "\<forall>x \<in> set post. f b \<le> f x"
  shows "\<exists>rest. sort_key f (pre @ b # post) = b # rest"
  using assms(1)
proof (induction pre)
  case Nil
  have "insort_key f b (sort_key f post) = b # sort_key f post"
    using assms(2) by (intro insort_is_Cons) simp
  then show ?case by simp
next
  case (Cons x pre)
  then obtain rest where r: "sort_key f (pre @ b # post) = b # rest" by auto
  have "\<not> f x \<le> f b" using Cons.prems by auto
  then show ?case using r by simp
qed


lemma autodetect_exe_first_min:
  assumes "filter exe_kept (exe_candidates w (pfx @ [''drive_c''])) = pre @ best # post"
    and "\<forall>x \<in> set pre. score best < score x"
    and "\<forall>x \<in> set post. score best \<le> score x"
    and "below (pfx @ [''drive_c'']) best"
  shows "autodetect_exe w pfx =
           Inr ([CHR ''C'', CHR '':'', CHR 0x5C]
                @ join [CHR 0x5C] (drop (length (pfx @ [''drive_c''])) best))"
proof -
  obtain rest where "sort_key score (pre @ best # post) = best # rest"
    using sort_key_first_min[OF assms(2,3)] by blast
  then have "sort_key score (filter exe_kept (exe_candidates w (pfx @ [''drive_c''])))
               = best # rest"
    using assms(1) by simp
  from autodetect_exe_best[OF this assms(4)] show ?thesis
    by (simp add: windows_path_def)
qed

lemma kept_nonempty_iff:
  "filter exe_kept cs \<noteq> [] \<longleftrightarrow> (\<exists>p \<in> set cs. \<not> denied p)"
  by (auto simp: denied_iff filter_empty_conv)

lemma autodetect_exe_single:
  assumes "filter exe_kept (exe_candidates w (pfx @ [''drive_c''])) = [p]"
    and "below (pfx @ [''drive_c'']) p"
  shows "autodetect_exe w pfx =
           Inr ([CHR ''C'', CHR '':'', CHR 0x5C]
                @ join [CHR 0x5C] (drop (length (pfx @ [''drive_c''])) p))"
  using autodetect_exe_first_min[of w pfx "[]" p "[]"] assms by simp

lemma autodetect_exe_none:
  assumes "filter exe_kept (exe_candidates w (pfx @ [''drive_c''])) = []"
  shows "autodetect_exe w pfx = Inr []"
  using assms by (simp add: autodetect_exe_unfold)

lemma exe_kept_unfold:
  "exe_kept p \<longleftrightarrow> lower (path_name p) \<notin> skip_names \<and>
                    (\<forall>tok \<in> set skip_dir_tokens. \<not> sublist tok (path_str p))"
  by (auto simp: exe_kept_def)

lemma preferred_score_less:
  assumes "lower (path_name p) \<in> prefer_names" and "lower (path_name q) \<notin> prefer_names"
  shows "score p < score q"
  using assms by (simp add: beats_iff[symmetric] beats_def)

section \<open>Claims on the sandbox policy builder\<close>

text \<open>
  C1, as the code has it. For every \<open>allow_downloads\<close> flag and every list of extra
  directives that does not itself hold a read-write bind of the home directory or of the
  Downloads directory, on a host whose session runtime directory is neither of the two and
  whose home directory is not one of the two socket directories: the directives of the
  policy contain a read-write bind of the home directory exactly when the mode is
  \<open>full\<close>, and a read-write bind of the Downloads directory exactly when
  \<open>allow_downloads\<close> holds and that directory exists.
\<close>

theorem policy_home_downloads:
  assumes "mode \<in> {''full'', ''strict''}"
    and "map_of (environ w) ''XDG_RUNTIME_DIR'' \<noteq> Some (path_str (home_dir w))"
    and "map_of (environ w) ''XDG_RUNTIME_DIR'' \<noteq> Some (path_str (home_dir w @ [''Downloads'']))"
    and "path_str (home_dir w) \<notin> {''/tmp/.X11-unix'', ''/tmp/.ICE-unix''}"
    and "Bind ''--bind'' (path_str (home_dir w)) (path_str (home_dir w))
           \<notin> set (directives (extras extra @ ''--'' # cmd))"
    and "Bind ''--bind'' (path_str (home_dir w @ [''Downloads'']))
             (path_str (home_dir w @ [''Downloads'']))
           \<notin> set (directives (extras extra @ ''--'' # cmd))"
  shows "\<exists>out. wrap_bwrap w cmd mode ad extra = Inr out \<and>
           (Bind ''--bind'' (path_str (home_dir w)) (path_str (home_dir w))
              \<in> set (directives (tl out)) \<longleftrightarrow> mode = ''full'') \<and>
           (Bind ''--bind'' (path_str (home_dir w @ [''Downloads'']))
                (path_str (home_dir w @ [''Downloads'']))
              \<in> set (directives (tl out))
            \<longleftrightarrow> ad \<and> path_exists w (path_str (home_dir w @ [''Downloads''])))"
proof -
  obtain out where out: "wrap_bwrap w cmd mode ad extra = Inr out"
    and ds: "directives (tl out) =
             directives always_present @ display_dirs w @ mode_dirs w mode ad
             @ directives (extras extra @ ''--'' # cmd)"
    using directives_wrap[OF assms(1)] by blast
  have fixed: "\<And>p. Bind ''--bind'' p p \<notin> set (directives always_present)"
    using directives_always[of "[]"] by simp
  have disp_home: "Bind ''--bind'' (path_str (home_dir w)) (path_str (home_dir w))
                     \<notin> set (display_dirs w)"
    using assms(2,4) by (auto simp: display_dirs_def split: option.splits if_splits)
  have disp_dl: "Bind ''--bind'' (path_str (home_dir w @ [''Downloads'']))
                    (path_str (home_dir w @ [''Downloads''])) \<notin> set (display_dirs w)"
    using assms(3) downloads_neq_sockets[of "home_dir w"]
    by (auto simp: display_dirs_def split: option.splits if_splits)
  have mode_home: "Bind ''--bind'' (path_str (home_dir w)) (path_str (home_dir w))
                     \<in> set (mode_dirs w mode ad) \<longleftrightarrow> mode = ''full''"
    using norun_neq_home[of "home_dir w"] downloads_neq_home[of "home_dir w"]
    by (auto simp: mode_dirs_def Let_def)
  have mode_dl: "Bind ''--bind'' (path_str (home_dir w @ [''Downloads'']))
                    (path_str (home_dir w @ [''Downloads''])) \<in> set (mode_dirs w mode ad)
                 \<longleftrightarrow> ad \<and> path_exists w (path_str (home_dir w @ [''Downloads'']))"
    using norun_neq_downloads[of "home_dir w"] downloads_neq_home[of "home_dir w"]
    by (auto simp: mode_dirs_def Let_def)
  show ?thesis
    using out ds fixed disp_home disp_dl mode_home mode_dl assms(5,6) by simp
qed

theorem policy_home_downloads_witness:
  "''strict'' \<in> {''full'', ''strict''} \<and>
   map_of (environ host_u) ''XDG_RUNTIME_DIR'' \<noteq> Some (path_str (home_dir host_u)) \<and>
   map_of (environ host_u) ''XDG_RUNTIME_DIR''
     \<noteq> Some (path_str (home_dir host_u @ [''Downloads''])) \<and>
   path_str (home_dir host_u) \<notin> {''/tmp/.X11-unix'', ''/tmp/.ICE-unix''} \<and>
   Bind ''--bind'' (path_str (home_dir host_u)) (path_str (home_dir host_u))
     \<notin> set (directives (extras (Some [''--ro-bind'', ''/opt'', ''/opt'']) @ ''--'' # [''wine'', ''a.exe''])) \<and>
   Bind ''--bind'' (path_str (home_dir host_u @ [''Downloads'']))
       (path_str (home_dir host_u @ [''Downloads'']))
     \<notin> set (directives (extras (Some [''--ro-bind'', ''/opt'', ''/opt'']) @ ''--'' # [''wine'', ''a.exe''])) \<and>
   (\<exists>out. wrap_bwrap host_u [''wine'', ''a.exe''] ''strict'' True
            (Some [''--ro-bind'', ''/opt'', ''/opt'']) = Inr out \<and>
      (Bind ''--bind'' (path_str (home_dir host_u)) (path_str (home_dir host_u))
         \<in> set (directives (tl out)) \<longleftrightarrow> ''strict'' = ''full'') \<and>
      (Bind ''--bind'' (path_str (home_dir host_u @ [''Downloads'']))
           (path_str (home_dir host_u @ [''Downloads'']))
         \<in> set (directives (tl out))
       \<longleftrightarrow> True \<and> path_exists host_u (path_str (home_dir host_u @ [''Downloads'']))))"
proof -
  have h1: "''strict'' \<in> {''full'', ''strict''}" by simp
  have h2: "map_of (environ host_u) ''XDG_RUNTIME_DIR'' \<noteq> Some (path_str (home_dir host_u))"
    by (simp add: host_u_def)
  have h3: "map_of (environ host_u) ''XDG_RUNTIME_DIR''
              \<noteq> Some (path_str (home_dir host_u @ [''Downloads'']))"
    by (simp add: host_u_def)
  have h4: "path_str (home_dir host_u) \<notin> {''/tmp/.X11-unix'', ''/tmp/.ICE-unix''}"
    by (simp add: host_u_def)
  have h5: "Bind ''--bind'' (path_str (home_dir host_u)) (path_str (home_dir host_u))
     \<notin> set (directives (extras (Some [''--ro-bind'', ''/opt'', ''/opt'']) @ ''--'' # [''wine'', ''a.exe'']))"
    by (simp add: extras_def)
  have h6: "Bind ''--bind'' (path_str (home_dir host_u @ [''Downloads'']))
       (path_str (home_dir host_u @ [''Downloads'']))
     \<notin> set (directives (extras (Some [''--ro-bind'', ''/opt'', ''/opt'']) @ ''--'' # [''wine'', ''a.exe'']))"
    by (simp add: extras_def)
  show ?thesis
    using h1 h2 h3 h4 h5 h6 policy_home_downloads[OF h1 h2 h3 h4 h5 h6, of True]
    by blast
qed

text \<open>
  C1 as stated fails: the extra directives are appended as they are, so a caller's bind
  of the home directory is in the policy of mode \<open>strict\<close>.
\<close>

theorem strict_home_bind_counterexample:
  "wrap_bwrap host_u [''wine'', ''a.exe''] ''strict'' False
     (Some [''--bind'', ''/home/u'', ''/home/u''])
   = Inr [''bwrap'', ''--unshare-all'', ''--share-net'', ''--die-with-parent'', ''--new-session'',
          ''--dev-bind'', ''/dev'', ''/dev'', ''--ro-bind'', ''/'', ''/'', ''--proc'', ''/proc'',
          ''--tmpfs'', ''/tmp'', ''--dev-bind'', ''/dev/dri'', ''/dev/dri'',
          ''--bind'', ''/run/user/1000'', ''/run/user/1000'',
          ''--bind'', ''/tmp/.X11-unix'', ''/tmp/.X11-unix'',
          ''--bind'', ''/home/u'', ''/home/u'', ''--'', ''wine'', ''a.exe'']
   \<and> path_str (home_dir host_u) = ''/home/u''
   \<and> Bind ''--bind'' ''/home/u'' ''/home/u''
       \<in> set (directives
              [''--unshare-all'', ''--share-net'', ''--die-with-parent'', ''--new-session'',
               ''--dev-bind'', ''/dev'', ''/dev'', ''--ro-bind'', ''/'', ''/'', ''--proc'', ''/proc'',
               ''--tmpfs'', ''/tmp'', ''--dev-bind'', ''/dev/dri'', ''/dev/dri'',
               ''--bind'', ''/run/user/1000'', ''/run/user/1000'',
               ''--bind'', ''/tmp/.X11-unix'', ''/tmp/.X11-unix'',
               ''--bind'', ''/home/u'', ''/home/u'', ''--'', ''wine'', ''a.exe''])"
  by (simp add: wrap_bwrap_def host_u_def truthy_def Let_def)

text \<open>
  C2, as the code has it. When the binds among the extra directives name existing host
  paths, every bind directive of the policy names a host path that exists, except the
  fixed binds of \<open>/dev\<close> and \<open>/\<close> and the bind of the home directory in mode \<open>full\<close>,
  which are emitted without a probe.
\<close>

theorem conditional_binds_exist:
  assumes "mode \<in> {''full'', ''strict''}"
    and "\<forall>d \<in> set (directives (extras extra @ ''--'' # cmd)).
           is_bind d \<longrightarrow> path_exists w (host_path d)"
  shows "\<exists>out. wrap_bwrap w cmd mode ad extra = Inr out \<and>
           (\<forall>d \<in> set (directives (tl out)).
              is_bind d \<longrightarrow>
                host_path d = ''/dev'' \<or> host_path d = ''/'' \<or>
                (mode = ''full'' \<and> host_path d = path_str (home_dir w)) \<or>
                path_exists w (host_path d))"
proof -
  obtain out where out: "wrap_bwrap w cmd mode ad extra = Inr out"
    and ds: "directives (tl out) =
             directives always_present @ display_dirs w @ mode_dirs w mode ad
             @ directives (extras extra @ ''--'' # cmd)"
    using directives_wrap[OF assms(1)] by blast
  have fixed: "\<forall>d \<in> set (directives always_present).
                 is_bind d \<longrightarrow> host_path d = ''/dev'' \<or> host_path d = ''/''"
    using directives_always[of "[]"] by simp
  have disp: "\<forall>d \<in> set (display_dirs w). is_bind d \<longrightarrow> path_exists w (host_path d)"
    by (auto simp: display_dirs_def split: option.splits if_splits)
  have md: "\<forall>d \<in> set (mode_dirs w mode ad).
              is_bind d \<longrightarrow>
                (mode = ''full'' \<and> host_path d = path_str (home_dir w)) \<or>
                path_exists w (host_path d)"
    by (auto simp: mode_dirs_def Let_def split: if_splits)
  show ?thesis
    using out ds fixed disp md assms(2) by auto
qed

theorem conditional_binds_exist_witness:
  "''full'' \<in> {''full'', ''strict''} \<and>
   directives (extras (Some [''--ro-bind'', ''/dev/dri'', ''/gpu'']) @ ''--'' # [''wine'', ''a.exe''])
     = [Bind ''--ro-bind'' ''/dev/dri'' ''/gpu''] \<and>
   path_exists host_u ''/dev/dri'' \<and>
   (\<exists>out. wrap_bwrap host_u [''wine'', ''a.exe''] ''full'' True
            (Some [''--ro-bind'', ''/dev/dri'', ''/gpu'']) = Inr out \<and>
      (\<forall>d \<in> set (directives (tl out)).
         is_bind d \<longrightarrow>
           host_path d = ''/dev'' \<or> host_path d = ''/'' \<or>
           (''full'' = ''full'' \<and> host_path d = path_str (home_dir host_u)) \<or>
           path_exists host_u (host_path d)))"
proof -
  have h1: "''full'' \<in> {''full'', ''strict''}" by simp
  have ds: "directives (extras (Some [''--ro-bind'', ''/dev/dri'', ''/gpu'']) @ ''--'' # [''wine'', ''a.exe''])
              = [Bind ''--ro-bind'' ''/dev/dri'' ''/gpu'']"
    by (simp add: extras_def)
  have ex: "path_exists host_u ''/dev/dri''"
    by (simp add: host_u_def)
  have h2: "\<forall>d \<in> set (directives (extras (Some [''--ro-bind'', ''/dev/dri'', ''/gpu''])
                                      @ ''--'' # [''wine'', ''a.exe''])).
              is_bind d \<longrightarrow> path_exists host_u (host_path d)"
    using ex by (simp add: ds)
  show ?thesis
    using h1 ds ex conditional_binds_exist[OF h1 h2, of True] by blast
qed

text \<open>
  C2 as stated fails: mode \<open>full\<close> binds the home directory whether or not it exists.
\<close>

theorem missing_home_bind_counterexample:
  "wrap_bwrap host_no_home [''wine'', ''a.exe''] ''full'' True None
   = Inr [''bwrap'', ''--unshare-all'', ''--share-net'', ''--die-with-parent'', ''--new-session'',
          ''--dev-bind'', ''/dev'', ''/dev'', ''--ro-bind'', ''/'', ''/'', ''--proc'', ''/proc'',
          ''--tmpfs'', ''/tmp'', ''--bind'', ''/home/u'', ''/home/u'', ''--'', ''wine'', ''a.exe'']
   \<and> Bind ''--bind'' ''/home/u'' ''/home/u''
       \<in> set (directives
              [''--unshare-all'', ''--share-net'', ''--die-with-parent'', ''--new-session'',
               ''--dev-bind'', ''/dev'', ''/dev'', ''--ro-bind'', ''/'', ''/'', ''--proc'', ''/proc'',
               ''--tmpfs'', ''/tmp'', ''--bind'', ''/home/u'', ''/home/u'', ''--'', ''wine'', ''a.exe''])
   \<and> is_bind (Bind ''--bind'' ''/home/u'' ''/home/u'')
   \<and> host_path (Bind ''--bind'' ''/home/u'' ''/home/u'') = ''/home/u''
   \<and> \<not> path_exists host_no_home ''/home/u''"
  by (simp add: wrap_bwrap_def host_no_home_def host_u_def truthy_def Let_def)

text \<open>
  C3. For both modes and every combination of options the policy is the program name,
  the fixed directives (unshare all namespaces but the network, die with the parent, new
  session, device bind of \<open>/dev\<close>, read-only bind of \<open>/\<close> onto itself, a fresh \<open>/proc\<close>, a
  fresh \<open>/tmp\<close>), then the device, session and display binds, then the binds of the mode,
  then the caller's extra directives unchanged, then the command.
\<close>

theorem policy_order:
  assumes "mode \<in> {''full'', ''strict''}"
  shows "\<exists>out. wrap_bwrap w cmd mode ad extra = Inr out \<and>
           out = ''bwrap'' # always_present @ display_binds w @ mode_binds w mode ad
                 @ extras extra @ ''--'' # cmd \<and>
           prefix [Flag ''--unshare-all'', Flag ''--share-net'', Flag ''--die-with-parent'',
                   Flag ''--new-session'', Bind ''--dev-bind'' ''/dev'' ''/dev'',
                   Bind ''--ro-bind'' ''/'' ''/'', Mount ''--proc'' ''/proc'',
                   Mount ''--tmpfs'' ''/tmp'']
                  (directives (tl out))"
  using wrap_bwrap_sections[OF assms, of w cmd ad extra]
  by (simp add: directives_always)

theorem policy_order_witness:
  "''strict'' \<in> {''full'', ''strict''} \<and>
   (\<exists>out. wrap_bwrap host_u [''wine'', ''a.exe''] ''strict'' True (Some [''--setenv'', ''A'', ''b''])
            = Inr out \<and>
      out = ''bwrap'' # always_present @ display_binds host_u @ mode_binds host_u ''strict'' True
            @ extras (Some [''--setenv'', ''A'', ''b'']) @ ''--'' # [''wine'', ''a.exe''] \<and>
      prefix [Flag ''--unshare-all'', Flag ''--share-net'', Flag ''--die-with-parent'',
              Flag ''--new-session'', Bind ''--dev-bind'' ''/dev'' ''/dev'',
              Bind ''--ro-bind'' ''/'' ''/'', Mount ''--proc'' ''/proc'',
              Mount ''--tmpfs'' ''/tmp'']
             (directives (tl out)))"
proof -
  have h1: "''strict'' \<in> {''full'', ''strict''}" by simp
  show ?thesis using h1 policy_order[OF h1] by blast
qed

section \<open>Claims on environment composition\<close>

text \<open>
  C7, as the code has it. The composed environment is a new dictionary that starts as a
  copy of the process environment; the prefix variable and the two shader cache variables
  are overwritten in every case; \<open>WINEDEBUG\<close> becomes \<open>-all\<close> exactly when the process
  environment has no such key, and keeps the inherited value otherwise, the empty one
  included; every other variable is inherited; the process environment and every
  dictionary that existed before are unchanged.
\<close>

theorem env_for_composition:
  assumes "env_for w pfx = (r, w')"
  shows "r = fresh w \<and> environ w' = environ w \<and>
         (\<forall>r' < fresh w. heap w' r' = heap w r') \<and>
         map_of (heap w' r) ''WINEPREFIX'' = Some (path_str pfx) \<and>
         map_of (heap w' r) ''DXVK_STATE_CACHE_PATH'' = Some (path_str (CACHE_DIR w @ [''dxvk''])) \<and>
         map_of (heap w' r) ''VKD3D_SHADER_CACHE_PATH''
           = Some (path_str (CACHE_DIR w @ [''vkd3d''])) \<and>
         map_of (heap w' r) ''WINEDEBUG''
           = (case map_of (environ w) ''WINEDEBUG'' of None \<Rightarrow> Some ''-all'' | Some v \<Rightarrow> Some v) \<and>
         (\<forall>k. k \<notin> {''WINEPREFIX'', ''WINEDEBUG'', ''DXVK_STATE_CACHE_PATH'',
                     ''VKD3D_SHADER_CACHE_PATH''}
              \<longrightarrow> map_of (heap w' r) k = map_of (environ w) k)"
  using assms
  by (auto simp: env_for_def alloc_def dict_set_def dict_setdefault_def Let_def map_of_update
           split: option.splits)

theorem env_for_composition_witness:
  "\<exists>w'. env_for host_u [''/'', ''pfx''] = (0, w') \<and>
         environ w' = environ host_u \<and>
         map_of (heap w' 0) ''WINEPREFIX'' = Some ''/pfx'' \<and>
         map_of (heap w' 0) ''WINEDEBUG'' = Some ''-all'' \<and>
         map_of (heap w' 0) ''DXVK_STATE_CACHE_PATH'' = Some ''/home/u/.cache/norun/dxvk'' \<and>
         map_of (heap w' 0) ''DISPLAY'' = Some '':0''"
proof -
  obtain r w' where h: "env_for host_u [''/'', ''pfx''] = (r, w')"
    by (cases "env_for host_u [''/'', ''pfx'']")
  note c = env_for_composition[OF h]
  have r: "r = 0"
    using c by (simp add: host_u_def)
  have e: "environ w' = environ host_u"
    using c by blast
  have p: "map_of (heap w' 0) ''WINEPREFIX'' = Some ''/pfx''"
    using c r by simp
  have d: "map_of (heap w' 0) ''WINEDEBUG'' = Some ''-all''"
  proof -
    have "map_of (heap w' r) ''WINEDEBUG''
            = (case map_of (environ host_u) ''WINEDEBUG'' of None \<Rightarrow> Some ''-all'' | Some v \<Rightarrow> Some v)"
      using c by blast
    then show ?thesis using r by (simp add: host_u_def)
  qed
  have x: "map_of (heap w' 0) ''DXVK_STATE_CACHE_PATH'' = Some ''/home/u/.cache/norun/dxvk''"
  proof -
    have "map_of (heap w' r) ''DXVK_STATE_CACHE_PATH''
            = Some (path_str (CACHE_DIR host_u @ [''dxvk'']))"
      using c by blast
    then show ?thesis using r by (simp add: host_u_def)
  qed
  have y: "map_of (heap w' 0) ''DISPLAY'' = Some '':0''"
  proof -
    have "\<forall>k. k \<notin> {''WINEPREFIX'', ''WINEDEBUG'', ''DXVK_STATE_CACHE_PATH'',
                     ''VKD3D_SHADER_CACHE_PATH''}
              \<longrightarrow> map_of (heap w' r) k = map_of (environ host_u) k"
      using c by blast
    then have "map_of (heap w' r) ''DISPLAY'' = map_of (environ host_u) ''DISPLAY''"
      by simp
    then show ?thesis using r by (simp add: host_u_def)
  qed
  show ?thesis
    using h r e p d x y by blast
qed

text \<open>
  C7 as stated fails: an inherited \<open>WINEDEBUG\<close> that is set to the empty string is not a
  non-empty override, and it is kept.
\<close>

theorem empty_winedebug_counterexample:
  "map_of (environ host_debug) ''WINEDEBUG'' = Some [] \<and>
   map_of (heap (snd (env_for host_debug [''/'', ''pfx''])) (fst (env_for host_debug [''/'', ''pfx'']))) ''WINEDEBUG''
     = Some [] \<and>
   Some [] \<noteq> Some ''-all''"
  by (simp add: env_for_def alloc_def dict_set_def dict_setdefault_def host_debug_def host_u_def
        Let_def)

section \<open>Claims on the process supervisor\<close>




text \<open>
  C9. \<open>run\<close> leaves the caller's environment dictionary, the process environment and
  every dictionary that existed before the call as they were, whatever the outcome:
  \<open>WINESERVER\<close> is stored in a copy made by the call.
\<close>

theorem run_keeps_caller_env:
  assumes "run w cmd (Some e) lp sb ad sm ex = (res, w')"
    and "e < fresh w"
  shows "heap w' e = heap w e \<and> environ w' = environ w \<and>
         (\<forall>r < fresh w. heap w' r = heap w r)"
  using run_frame[OF assms(1)] assms(2) by (simp add: frame_def)

theorem run_keeps_caller_env_witness:
  "(0::nat) < fresh host_env \<and>
   (\<exists>res w'. run host_env [''wine'', ''a.exe''] (Some 0) None True True ''full'' None = (res, w') \<and>
      heap host_env 0 = [(''WINEPREFIX'', ''/pfx'')] \<and>
      heap w' 0 = [(''WINEPREFIX'', ''/pfx'')] \<and>
      environ w' = environ host_env \<and>
      map snd (spawned w')
        = [[(''WINEPREFIX'', ''/pfx''), (''WINESERVER'', ''/usr/bin/wineserver'')]])"
proof -
  obtain res w' where
    r: "run host_env [''wine'', ''a.exe''] (Some 0) None True True ''full'' None = (res, w')"
    by (cases "run host_env [''wine'', ''a.exe''] (Some 0) None True True ''full'' None")
  have f: "(0::nat) < fresh host_env" and h: "heap host_env 0 = [(''WINEPREFIX'', ''/pfx'')]"
    by (simp_all add: host_env_def)
  have "map snd (spawned (snd (run host_env [''wine'', ''a.exe''] (Some 0) None True True
                                 ''full'' None)))
          = [[(''WINEPREFIX'', ''/pfx''), (''WINESERVER'', ''/usr/bin/wineserver'')]]"
    by (simp add: run_def host_env_def host_u_def alloc_def resolve_cmd_def wineserver_env_def
          wrap_bwrap_def launch_def truthy_def isabs_def basename_def dict_set_def Let_def)
  then have s: "map snd (spawned w')
                  = [[(''WINEPREFIX'', ''/pfx''), (''WINESERVER'', ''/usr/bin/wineserver'')]]"
    using r by simp
  from run_keeps_caller_env[OF r f] have "heap w' 0 = heap host_env 0"
    and "environ w' = environ host_env" by simp_all
  then show ?thesis using r f h s by simp
qed

section \<open>Claims on installing\<close>

text \<open>
  C8. When an installer is run with sandboxing, whatever sandbox mode \<open>m\<close> the app's
  configuration holds, the process started is the policy of mode \<open>full\<close> (with the bind of
  the home directory and with Downloads allowed) wrapped around \<open>wine\<close> and the installer.
\<close>

theorem install_forces_full:
  assumes "resolve_installer_path w ip = Inr installer"
    and "truthy (which w ''bwrap'')"
    and "which w ''wine'' = Some p" and "p \<noteq> []"
    and "install w (cfg\<lparr>cfg_sandbox_mode := m\<rparr>) ip False True = (res, w')"
  shows "\<exists>out en. wrap_bwrap w [p, installer] ''full'' True None = Inr out \<and>
           Bind ''--bind'' (path_str (home_dir w)) (path_str (home_dir w))
             \<in> set (directives (tl out)) \<and>
           (case proc_exit w out en of
              None \<Rightarrow> res = Inl OSError \<and> spawned w' = spawned w
            | Some rc \<Rightarrow>
                spawned w' = spawned w @ [(out, en)] \<and>
                res = (if rc \<noteq> 0
                       then Inl (InstallerFailed rc
                                   (path_str (LOG_DIR w @ [cfg_name cfg, ''install.log''])))
                       else Inr (cfg\<lparr>cfg_sandbox_mode := m\<rparr>)))"
proof -
  let ?cfg = "cfg\<lparr>cfg_sandbox_mode := m\<rparr>"
  obtain env w1 where e: "env_for w (cfg_prefix ?cfg) = (env, w1)"
    by (cases "env_for w (cfg_prefix ?cfg)")
  have s1: "same_host w w1" using same_host_env_for[OF e] .
  have ri: "resolve_installer_path w1 ip = Inr installer"
    using same_host_resolve_installer_path[OF s1] assms(1) by simp
  obtain r1 w2 where r: "run w1 [''wine'', installer] (Some env)
                           (Some (LOG_DIR w1 @ [cfg_name ?cfg, ''install.log'']))
                           True True ''full'' None = (r1, w2)"
    by (cases "run w1 [''wine'', installer] (Some env)
                 (Some (LOG_DIR w1 @ [cfg_name ?cfg, ''install.log''])) True True ''full'' None")
  have i: "install w ?cfg ip False True =
             (case r1 of
                Inl e \<Rightarrow> (Inl e, w2)
              | Inr rc \<Rightarrow>
                  if rc \<noteq> 0
                  then (Inl (InstallerFailed rc
                               (path_str (LOG_DIR w1 @ [cfg_name ?cfg, ''install.log'']))), w2)
                  else (Inr ?cfg, w2))"
    unfolding install_def Let_def e prod.case ri sum.case using r
    by (simp split: sum.splits)
  have bw: "truthy (which w1 ''bwrap'')" and wi: "which w1 ''wine'' = Some p"
    using s1 assms(2,3) by (simp_all add: same_host_def)
  have rc: "resolve_cmd w1 [''wine'', installer] = Inr [p, installer]"
    using wi assms(4) by (simp add: resolve_cmd_def isabs_def)
  obtain out where out: "wrap_bwrap w [p, installer] ''full'' True None = Inr out"
    using wrap_bwrap_sections[of "''full''" w "[p, installer]" True None] by simp
  then have out1: "wrap_bwrap w1 [p, installer] ''full'' True None = Inr out"
    using same_host_wrap_bwrap[OF s1] by simp
  obtain en where l: "case proc_exit w1 out en of
                None \<Rightarrow> r1 = Inl OSError \<and> spawned w2 = spawned w1
              | Some rc \<Rightarrow> r1 = Inr rc \<and> spawned w2 = spawned w1 @ [(out, en)]"
    using run_sandbox_launch[OF bw rc out1 r] by blast
  have eqs: "proc_exit w1 = proc_exit w" "spawned w1 = spawned w" "LOG_DIR w1 = LOG_DIR w"
    using s1 by (simp_all add: same_host_def)
  have "case proc_exit w out en of
              None \<Rightarrow> res = Inl OSError \<and> spawned w' = spawned w
            | Some rc \<Rightarrow>
                spawned w' = spawned w @ [(out, en)] \<and>
                res = (if rc \<noteq> 0
                       then Inl (InstallerFailed rc
                                   (path_str (LOG_DIR w @ [cfg_name cfg, ''install.log''])))
                       else Inr ?cfg)"
    using l i assms(5) eqs by (auto split: option.splits)
  then show ?thesis using out full_binds_home[OF out] by blast
qed

theorem install_forces_full_witness:
  "resolve_installer_path host_u ''/home/u/setup.exe'' = Inr ''/home/u/setup.exe'' \<and>
   truthy (which host_u ''bwrap'') \<and>
   which host_u ''wine'' = Some ''/usr/bin/wine'' \<and>
   cfg_sandbox_mode (cfg_strict\<lparr>cfg_sandbox_mode := ''strict''\<rparr>) = ''strict'' \<and>
   (\<exists>res w'. install host_u (cfg_strict\<lparr>cfg_sandbox_mode := ''strict''\<rparr>) ''/home/u/setup.exe''
                False True = (res, w') \<and>
      (\<exists>out en. wrap_bwrap host_u [''/usr/bin/wine'', ''/home/u/setup.exe''] ''full'' True None
                  = Inr out \<and>
         Bind ''--bind'' ''/home/u'' ''/home/u'' \<in> set (directives (tl out)) \<and>
         spawned w' = [(out, en)] \<and>
         res = Inr (cfg_strict\<lparr>cfg_sandbox_mode := ''strict''\<rparr>)))"
proof -
  obtain res w' where
    r: "install host_u (cfg_strict\<lparr>cfg_sandbox_mode := ''strict''\<rparr>) ''/home/u/setup.exe''
          False True = (res, w')"
    by (cases "install host_u (cfg_strict\<lparr>cfg_sandbox_mode := ''strict''\<rparr>)
                 ''/home/u/setup.exe'' False True")
  have ri: "resolve_installer_path host_u ''/home/u/setup.exe'' = Inr ''/home/u/setup.exe''"
    by (simp add: resolve_installer_path_def host_u_def)
  have b: "truthy (which host_u ''bwrap'')"
    and wi: "which host_u ''wine'' = Some ''/usr/bin/wine''" and ne: "''/usr/bin/wine'' \<noteq> []"
    by (simp_all add: host_u_def truthy_def)
  have m: "cfg_sandbox_mode (cfg_strict\<lparr>cfg_sandbox_mode := ''strict''\<rparr>) = ''strict''"
    by simp
  have pe: "\<And>c e. proc_exit host_u c e = Some 0" and sp: "spawned host_u = []"
    and hd: "path_str (home_dir host_u) = ''/home/u''"
    by (simp_all add: host_u_def)
  from install_forces_full[OF ri b wi ne r]
  obtain out en where
    o: "wrap_bwrap host_u [''/usr/bin/wine'', ''/home/u/setup.exe''] ''full'' True None = Inr out"
    and hb: "Bind ''--bind'' (path_str (home_dir host_u)) (path_str (home_dir host_u))
               \<in> set (directives (tl out))"
    and c: "case proc_exit host_u out en of
              None \<Rightarrow> res = Inl OSError \<and> spawned w' = spawned host_u
            | Some rc \<Rightarrow>
                spawned w' = spawned host_u @ [(out, en)] \<and>
                res = (if rc \<noteq> 0
                       then Inl (InstallerFailed rc
                                   (path_str (LOG_DIR host_u @ [cfg_name cfg_strict, ''install.log''])))
                       else Inr (cfg_strict\<lparr>cfg_sandbox_mode := ''strict''\<rparr>))"
    by blast
  have "spawned w' = [(out, en)] \<and> res = Inr (cfg_strict\<lparr>cfg_sandbox_mode := ''strict''\<rparr>)"
    using c pe sp by simp
  then show ?thesis using ri b wi m r o hb hd by auto
qed

section \<open>Claims on executable autodetection\<close>

text \<open>
  C4. On every prefix whose walk yields ASCII paths below the drive root: if every
  candidate has a lowercased file name on the deny list or a path string that holds a
  denied directory token, the result is the empty string ("not found"). Otherwise the
  result is \<open>C:\<close>, then each part of the path of one candidate \<open>best\<close> below the drive
  root after a backslash, where \<open>best\<close> is a candidate that is not denied in either way and
  that no candidate \<open>q\<close> kept by the filter precedes in the order of the three keys: either
  \<open>best\<close> has a preferred name (lowercased, on the allow list) and \<open>q\<close> has not, or both or
  neither have one and \<open>best\<close> has fewer parts or, with as many parts, a path string that
  is not longer.
\<close>

theorem autodetect_exe_selects_best:
  assumes "\<forall>p \<in> set (exe_candidates w (pfx @ [''drive_c''])).
             below (pfx @ [''drive_c'']) p \<and> ascii_path p"
  shows "((\<forall>p \<in> set (exe_candidates w (pfx @ [''drive_c''])).
             lower (path_name p) \<in> skip_names \<or>
             (\<exists>tok \<in> set skip_dir_tokens. sublist tok (path_str p)))
          \<longrightarrow> autodetect_exe w pfx = Inr []) \<and>
         ((\<exists>p \<in> set (exe_candidates w (pfx @ [''drive_c''])).
             lower (path_name p) \<notin> skip_names \<and>
             (\<forall>tok \<in> set skip_dir_tokens. \<not> sublist tok (path_str p)))
          \<longrightarrow>
            (\<exists>best \<in> set (exe_candidates w (pfx @ [''drive_c''])).
               lower (path_name best) \<notin> skip_names \<and>
               (\<forall>tok \<in> set skip_dir_tokens. \<not> sublist tok (path_str best)) \<and>
               (\<forall>q \<in> set (exe_candidates w (pfx @ [''drive_c''])).
                  lower (path_name q) \<notin> skip_names \<and>
                  (\<forall>tok \<in> set skip_dir_tokens. \<not> sublist tok (path_str q))
                  \<longrightarrow>
                    (lower (path_name best) \<in> prefer_names \<and>
                     lower (path_name q) \<notin> prefer_names) \<or>
                    ((lower (path_name best) \<in> prefer_names
                        \<longleftrightarrow> lower (path_name q) \<in> prefer_names) \<and>
                     (length best < length q \<or>
                      (length best = length q \<and>
                       length (path_str best) \<le> length (path_str q))))) \<and>
               autodetect_exe w pfx =
                 Inr ([CHR ''C'', CHR '':'', CHR 0x5C]
                      @ join [CHR 0x5C] (drop (length (pfx @ [''drive_c''])) best))))"
proof (intro conjI impI)
  let ?C = "exe_candidates w (pfx @ [''drive_c''])"
  assume "\<forall>p \<in> set ?C. lower (path_name p) \<in> skip_names \<or>
             (\<exists>tok \<in> set skip_dir_tokens. sublist tok (path_str p))"
  then have "filter exe_kept ?C = []"
    by (auto simp: exe_kept_iff filter_empty_conv)
  then show "autodetect_exe w pfx = Inr []"
    by (simp add: autodetect_exe_unfold)
next
  let ?C = "exe_candidates w (pfx @ [''drive_c''])"
  let ?F = "filter exe_kept ?C"
  assume "\<exists>p \<in> set ?C. lower (path_name p) \<notin> skip_names \<and>
             (\<forall>tok \<in> set skip_dir_tokens. \<not> sublist tok (path_str p))"
  then have ne: "?F \<noteq> []"
    by (auto simp: exe_kept_iff filter_empty_conv)
  obtain best rest where s: "sort_key score ?F = best # rest"
    using sort_key_nonempty[OF ne] by blast
  have m: "best \<in> set ?F" and mn: "\<forall>x \<in> set ?F. score best \<le> score x"
    using sort_key_head_min[OF s] by simp_all
  have c: "best \<in> set ?C" and k: "exe_kept best"
    using m by simp_all
  have b: "below (pfx @ [''drive_c'']) best" using assms c by blast
  have r: "autodetect_exe w pfx =
             Inr ([CHR ''C'', CHR '':'', CHR 0x5C]
                  @ join [CHR 0x5C] (drop (length (pfx @ [''drive_c''])) best))"
    using autodetect_exe_best[OF s b] by (simp add: windows_path_def)
  have mn2: "\<forall>q \<in> set ?C.
               lower (path_name q) \<notin> skip_names \<and>
               (\<forall>tok \<in> set skip_dir_tokens. \<not> sublist tok (path_str q))
               \<longrightarrow>
                 (lower (path_name best) \<in> prefer_names \<and>
                  lower (path_name q) \<notin> prefer_names) \<or>
                 ((lower (path_name best) \<in> prefer_names
                     \<longleftrightarrow> lower (path_name q) \<in> prefer_names) \<and>
                  (length best < length q \<or>
                   (length best = length q \<and>
                    length (path_str best) \<le> length (path_str q))))"
  proof (intro ballI impI)
    fix q
    assume q: "q \<in> set ?C"
      and kq: "lower (path_name q) \<notin> skip_names \<and>
               (\<forall>tok \<in> set skip_dir_tokens. \<not> sublist tok (path_str q))"
    then have "q \<in> set ?F" by (simp add: exe_kept_iff)
    then have "score best \<le> score q" using mn by blast
    then have "\<not> beats q best" by (simp add: not_beats_iff)
    then show "(lower (path_name best) \<in> prefer_names \<and>
                  lower (path_name q) \<notin> prefer_names) \<or>
                 ((lower (path_name best) \<in> prefer_names
                     \<longleftrightarrow> lower (path_name q) \<in> prefer_names) \<and>
                  (length best < length q \<or>
                   (length best = length q \<and>
                    length (path_str best) \<le> length (path_str q))))"
      unfolding beats_def by auto
  qed
  show "\<exists>best \<in> set ?C.
               lower (path_name best) \<notin> skip_names \<and>
               (\<forall>tok \<in> set skip_dir_tokens. \<not> sublist tok (path_str best)) \<and>
               (\<forall>q \<in> set ?C.
                  lower (path_name q) \<notin> skip_names \<and>
                  (\<forall>tok \<in> set skip_dir_tokens. \<not> sublist tok (path_str q))
                  \<longrightarrow>
                    (lower (path_name best) \<in> prefer_names \<and>
                     lower (path_name q) \<notin> prefer_names) \<or>
                    ((lower (path_name best) \<in> prefer_names
                        \<longleftrightarrow> lower (path_name q) \<in> prefer_names) \<and>
                     (length best < length q \<or>
                      (length best = length q \<and>
                       length (path_str best) \<le> length (path_str q))))) \<and>
               autodetect_exe w pfx =
                 Inr ([CHR ''C'', CHR '':'', CHR 0x5C]
                      @ join [CHR 0x5C] (drop (length (pfx @ [''drive_c''])) best))"
    using c k[unfolded exe_kept_iff] mn2 r by blast
qed

theorem autodetect_exe_selects_best_witness:
  "exe_candidates (host_walk found_app) [''/'', ''pfx'', ''drive_c''] = found_app \<and>
   list_all (\<lambda>p. below [''/'', ''pfx'', ''drive_c''] p \<and> ascii_path p) found_app \<and>
   lower (path_name exe_uninstaller) \<in> skip_names \<and>
   sublist ''Common Files'' (path_str exe_common_x) \<and>
   lower (path_name exe_z) \<notin> prefer_names \<and>
   lower (path_name exe_launcher) \<in> prefer_names \<and>
   length exe_z < length exe_launcher \<and>
   autodetect_exe (host_walk found_app) [''/'', ''pfx'']
     = Inr (''C:'' @ [CHR 0x5C] @ ''Program Files'' @ [CHR 0x5C] @ ''MyApp'' @ [CHR 0x5C]
            @ ''Deep'' @ [CHR 0x5C] @ ''LAUNCHER.exe'')"
proof -
  have c: "exe_candidates (host_walk found_app) [''/'', ''pfx'', ''drive_c''] = found_app"
    by (rule exe_candidates_host_walk)
  have c': "exe_candidates (host_walk found_app) ([''/'', ''pfx''] @ [''drive_c'']) = found_app"
    using c by simp
  have la: "list_all (\<lambda>p. below [''/'', ''pfx'', ''drive_c''] p \<and> ascii_path p) found_app"
    by code_simp
  have u: "lower (path_name exe_uninstaller) \<in> skip_names" by code_simp
  have t: "sublist ''Common Files'' (path_str exe_common_x)" by code_simp
  have tk: "''Common Files'' \<in> set skip_dir_tokens" by (simp add: skip_dir_tokens_def)
  have z: "lower (path_name exe_z) \<notin> prefer_names" by code_simp
  have l: "lower (path_name exe_launcher) \<in> prefer_names" by code_simp
  have lk: "lower (path_name exe_launcher) \<notin> skip_names \<and>
            (\<forall>tok \<in> set skip_dir_tokens. \<not> sublist tok (path_str exe_launcher))"
    by code_simp
  have ln: "length exe_z < length exe_launcher" by code_simp
  have mem: "exe_launcher \<in> set found_app" by (simp add: found_app_def)
  have h: "\<forall>p \<in> set (exe_candidates (host_walk found_app) ([''/'', ''pfx''] @ [''drive_c''])).
             below ([''/'', ''pfx''] @ [''drive_c'']) p \<and> ascii_path p"
    using la by (simp add: c list_all_iff)
  note th = autodetect_exe_selects_best[OF h, unfolded c']
  obtain best where b: "best \<in> set found_app"
    and n1: "lower (path_name best) \<notin> skip_names"
    and n2: "\<forall>tok \<in> set skip_dir_tokens. \<not> sublist tok (path_str best)"
    and mn: "(lower (path_name best) \<in> prefer_names
                \<and> lower (path_name exe_launcher) \<notin> prefer_names) \<or>
             ((lower (path_name best) \<in> prefer_names
                 \<longleftrightarrow> lower (path_name exe_launcher) \<in> prefer_names) \<and>
              (length best < length exe_launcher \<or>
               (length best = length exe_launcher \<and>
                length (path_str best) \<le> length (path_str exe_launcher))))"
    and r: "autodetect_exe (host_walk found_app) [''/'', ''pfx''] =
              Inr ([CHR ''C'', CHR '':'', CHR 0x5C]
                   @ join [CHR 0x5C] (drop (length ([''/'', ''pfx''] @ [''drive_c''])) best))"
    using th lk mem by blast
  have "best = exe_uninstaller \<or> best = exe_z \<or> best = exe_launcher \<or> best = exe_common_x"
    using b by (simp add: found_app_def)
  then have "best = exe_launcher"
    using n1 n2 mn u t tk z l by blast
  then have "autodetect_exe (host_walk found_app) [''/'', ''pfx'']
     = Inr (''C:'' @ [CHR 0x5C] @ ''Program Files'' @ [CHR 0x5C] @ ''MyApp'' @ [CHR 0x5C]
            @ ''Deep'' @ [CHR 0x5C] @ ''LAUNCHER.exe'')"
    using r by (simp add: exe_launcher_def program_files_def)
  then show ?thesis using c la u t z l ln by simp
qed

text \<open>
  C5, as the code has it. On a prefix whose walk yields ASCII paths below the drive root:
  two walks that yield the same list of candidates give the same result; two walks that
  yield the same candidates in any two orders give the same result when only one kept
  candidate is beaten by no kept candidate; and in every case the result is the rendering
  of the first kept candidate, in the order of the walk, that no kept candidate beats: the
  one that beats every kept candidate met before it and that none met after it beats.
\<close>

theorem autodetect_exe_walk_order:
  assumes "\<forall>p \<in> set (exe_candidates w1 (pfx @ [''drive_c''])).
             below (pfx @ [''drive_c'']) p \<and> ascii_path p"
  shows "(exe_candidates w2 (pfx @ [''drive_c'']) = exe_candidates w1 (pfx @ [''drive_c''])
            \<longrightarrow> autodetect_exe w2 pfx = autodetect_exe w1 pfx) \<and>
         (mset (exe_candidates w2 (pfx @ [''drive_c'']))
            = mset (exe_candidates w1 (pfx @ [''drive_c''])) \<and>
          (\<forall>p \<in> set (exe_candidates w1 (pfx @ [''drive_c''])).
           \<forall>q \<in> set (exe_candidates w1 (pfx @ [''drive_c''])).
             \<not> denied p \<and> \<not> denied q \<and>
             (\<forall>x \<in> set (exe_candidates w1 (pfx @ [''drive_c''])).
                \<not> denied x \<longrightarrow> \<not> beats x p \<and> \<not> beats x q)
             \<longrightarrow> p = q)
            \<longrightarrow> autodetect_exe w2 pfx = autodetect_exe w1 pfx) \<and>
         (\<forall>pre best post.
            filter (\<lambda>p. \<not> denied p) (exe_candidates w1 (pfx @ [''drive_c'']))
              = pre @ best # post \<and>
            (\<forall>x \<in> set pre. beats best x) \<and> (\<forall>x \<in> set post. \<not> beats x best)
            \<longrightarrow> autodetect_exe w1 pfx =
                  Inr ([CHR ''C'', CHR '':'', CHR 0x5C]
                       @ join [CHR 0x5C] (drop (length (pfx @ [''drive_c''])) best)))"
proof (intro conjI impI allI)
  assume "exe_candidates w2 (pfx @ [''drive_c'']) = exe_candidates w1 (pfx @ [''drive_c''])"
  then show "autodetect_exe w2 pfx = autodetect_exe w1 pfx"
    by (simp add: autodetect_exe_unfold)
next
  let ?C1 = "exe_candidates w1 (pfx @ [''drive_c''])"
  let ?C2 = "exe_candidates w2 (pfx @ [''drive_c''])"
  let ?F1 = "filter exe_kept ?C1"
  let ?F2 = "filter exe_kept ?C2"
  assume a: "mset ?C2 = mset ?C1 \<and>
          (\<forall>p \<in> set ?C1. \<forall>q \<in> set ?C1.
             \<not> denied p \<and> \<not> denied q \<and>
             (\<forall>x \<in> set ?C1. \<not> denied x \<longrightarrow> \<not> beats x p \<and> \<not> beats x q)
             \<longrightarrow> p = q)"
  then have ms: "mset ?F2 = mset ?F1" by simp
  then have st: "set ?F2 = set ?F1" by (rule mset_eq_setD)
  show "autodetect_exe w2 pfx = autodetect_exe w1 pfx"
  proof (cases "?F1 = []")
    case True
    then have "?F2 = []" using ms by (metis mset_zero_iff)
    then show ?thesis using True by (simp add: autodetect_exe_unfold)
  next
    case False
    then have ne2: "?F2 \<noteq> []" using ms by (metis mset_zero_iff)
    obtain b1 r1 where s1: "sort_key score ?F1 = b1 # r1"
      using sort_key_nonempty[OF False] by blast
    obtain b2 r2 where s2: "sort_key score ?F2 = b2 # r2"
      using sort_key_nonempty[OF ne2] by blast
    have m1: "b1 \<in> set ?F1" "\<forall>x \<in> set ?F1. score b1 \<le> score x"
      using sort_key_head_min[OF s1] by simp_all
    from sort_key_head_min[OF s2]
    have m2: "b2 \<in> set ?F1" "\<forall>x \<in> set ?F1. score b2 \<le> score x"
      unfolding st by blast+
    have "\<forall>x \<in> set ?C1. \<not> denied x \<longrightarrow> \<not> beats x b1 \<and> \<not> beats x b2"
      using m1(2) m2(2) by (simp add: denied_iff not_beats_iff)
    moreover have "b1 \<in> set ?C1" "b2 \<in> set ?C1" "\<not> denied b1" "\<not> denied b2"
      using m1(1) m2(1) by (simp_all add: denied_iff)
    ultimately have "b1 = b2" using a by blast
    then show ?thesis using s1 s2 by (simp add: autodetect_exe_unfold)
  qed
next
  fix pre best post
  let ?C1 = "exe_candidates w1 (pfx @ [''drive_c''])"
  assume a: "filter (\<lambda>p. \<not> denied p) ?C1 = pre @ best # post \<and>
            (\<forall>x \<in> set pre. beats best x) \<and> (\<forall>x \<in> set post. \<not> beats x best)"
  have fe: "filter exe_kept ?C1 = pre @ best # post"
    using a by (simp add: denied_iff)
  have "best \<in> set (filter exe_kept ?C1)" using fe by simp
  then have b: "below (pfx @ [''drive_c'']) best" using assms by simp
  have "\<forall>x \<in> set pre. score best < score x" and "\<forall>x \<in> set post. score best \<le> score x"
    using a by (simp_all add: beats_iff not_beats_iff[symmetric])
  then obtain rest where "sort_key score (pre @ best # post) = best # rest"
    using sort_key_first_min[of pre score best post] by blast
  then have "sort_key score (filter exe_kept ?C1) = best # rest" using fe by simp
  from autodetect_exe_best[OF this b]
  show "autodetect_exe w1 pfx =
          Inr ([CHR ''C'', CHR '':'', CHR 0x5C]
               @ join [CHR 0x5C] (drop (length (pfx @ [''drive_c''])) best))"
    by (simp add: windows_path_def)
qed

theorem autodetect_exe_walk_order_witness:
  "exe_candidates (host_walk found_two) [''/'', ''pfx'', ''drive_c''] = found_two \<and>
   exe_candidates (host_walk (rev found_two)) [''/'', ''pfx'', ''drive_c''] = rev found_two \<and>
   rev found_two \<noteq> found_two \<and>
   list_all (\<lambda>p. below [''/'', ''pfx'', ''drive_c''] p \<and> ascii_path p) found_two \<and>
   filter (\<lambda>p. \<not> denied p) found_two = found_two \<and>
   length found_two = 2 \<and>
   beats exe_app exe_tool \<and>
   autodetect_exe (host_walk (rev found_two)) [''/'', ''pfx'']
     = autodetect_exe (host_walk found_two) [''/'', ''pfx''] \<and>
   autodetect_exe (host_walk found_two) [''/'', ''pfx'']
     = Inr (''C:'' @ [CHR 0x5C] @ ''Program Files'' @ [CHR 0x5C] @ ''MyApp'' @ [CHR 0x5C]
            @ ''app.exe'') \<and>
   list_all (\<lambda>p. below [''/'', ''pfx'', ''drive_c''] p \<and> ascii_path p) found_tie \<and>
   filter (\<lambda>p. \<not> denied p) found_tie = [exe_one, exe_two] \<and>
   \<not> beats exe_one exe_two \<and> \<not> beats exe_two exe_one \<and>
   autodetect_exe (host_walk found_tie) [''/'', ''pfx'']
     = Inr (''C:'' @ [CHR 0x5C] @ ''Program Files'' @ [CHR 0x5C] @ ''A'' @ [CHR 0x5C]
            @ ''one.exe'') \<and>
   autodetect_exe (host_walk (rev found_tie)) [''/'', ''pfx'']
     = Inr (''C:'' @ [CHR 0x5C] @ ''Program Files'' @ [CHR 0x5C] @ ''B'' @ [CHR 0x5C]
            @ ''two.exe'')"
proof -
  have c1: "exe_candidates (host_walk found_two) ([''/'', ''pfx''] @ [''drive_c'']) = found_two"
    using exe_candidates_host_walk[of found_two] by simp
  have c2: "exe_candidates (host_walk (rev found_two)) ([''/'', ''pfx''] @ [''drive_c''])
              = rev found_two"
    using exe_candidates_host_walk[of "rev found_two"] by simp
  have ne: "rev found_two \<noteq> found_two" by code_simp
  have la: "list_all (\<lambda>p. below [''/'', ''pfx'', ''drive_c''] p \<and> ascii_path p) found_two"
    by code_simp
  have nd: "\<not> denied exe_tool" "\<not> denied exe_app" by code_simp+
  have f: "filter (\<lambda>p. \<not> denied p) found_two = found_two"
    using nd by (simp add: found_two_def)
  have len: "length found_two = 2" by (simp add: found_two_def)
  have bt: "beats exe_app exe_tool" by code_simp
  have h: "\<forall>p \<in> set (exe_candidates (host_walk found_two) ([''/'', ''pfx''] @ [''drive_c''])).
             below ([''/'', ''pfx''] @ [''drive_c'']) p \<and> ascii_path p"
    using la by (simp add: exe_candidates_host_walk list_all_iff)
  note th = autodetect_exe_walk_order[OF h, of "host_walk (rev found_two)", unfolded c1 c2]
  have un: "\<forall>p \<in> set found_two. \<forall>q \<in> set found_two.
              \<not> denied p \<and> \<not> denied q \<and>
              (\<forall>x \<in> set found_two. \<not> denied x \<longrightarrow> \<not> beats x p \<and> \<not> beats x q)
              \<longrightarrow> p = q"
    using bt nd by (simp add: found_two_def)
  have e: "autodetect_exe (host_walk (rev found_two)) [''/'', ''pfx'']
             = autodetect_exe (host_walk found_two) [''/'', ''pfx'']"
    using th un by simp
  have t3: "filter (\<lambda>p. \<not> denied p) found_two = [exe_tool] @ exe_app # [] \<and>
            (\<forall>x \<in> set [exe_tool]. beats exe_app x) \<and> (\<forall>x \<in> set []. \<not> beats x exe_app)
            \<longrightarrow> autodetect_exe (host_walk found_two) [''/'', ''pfx''] =
                  Inr ([CHR ''C'', CHR '':'', CHR 0x5C]
                       @ join [CHR 0x5C]
                           (drop (length ([''/'', ''pfx''] @ [''drive_c''])) exe_app))"
    using th by blast
  have "filter (\<lambda>p. \<not> denied p) found_two = [exe_tool] @ exe_app # []"
    using f by (simp add: found_two_def)
  then have "autodetect_exe (host_walk found_two) [''/'', ''pfx''] =
          Inr ([CHR ''C'', CHR '':'', CHR 0x5C]
               @ join [CHR 0x5C] (drop (length ([''/'', ''pfx''] @ [''drive_c''])) exe_app))"
    using t3 bt by simp
  then have r: "autodetect_exe (host_walk found_two) [''/'', ''pfx'']
     = Inr (''C:'' @ [CHR 0x5C] @ ''Program Files'' @ [CHR 0x5C] @ ''MyApp'' @ [CHR 0x5C]
            @ ''app.exe'')"
    by (simp add: exe_app_def program_files_def)
  have d1: "exe_candidates (host_walk found_tie) ([''/'', ''pfx''] @ [''drive_c'']) = found_tie"
    using exe_candidates_host_walk[of found_tie] by simp
  have d2: "exe_candidates (host_walk (rev found_tie)) ([''/'', ''pfx''] @ [''drive_c''])
              = rev found_tie"
    using exe_candidates_host_walk[of "rev found_tie"] by simp
  have lt: "list_all (\<lambda>p. below [''/'', ''pfx'', ''drive_c''] p \<and> ascii_path p) found_tie"
    by code_simp
  have ndt: "\<not> denied exe_one" "\<not> denied exe_two" by code_simp+
  have nb: "\<not> beats exe_one exe_two" "\<not> beats exe_two exe_one" by code_simp+
  have ft: "filter (\<lambda>p. \<not> denied p) found_tie = [exe_one, exe_two]"
    using ndt by (simp add: found_tie_def)
  have fr: "filter (\<lambda>p. \<not> denied p) (rev found_tie) = [exe_two, exe_one]"
    using ndt by (simp add: found_tie_def)
  have ht: "\<forall>p \<in> set (exe_candidates (host_walk found_tie) ([''/'', ''pfx''] @ [''drive_c''])).
             below ([''/'', ''pfx''] @ [''drive_c'']) p \<and> ascii_path p"
    using lt by (simp add: exe_candidates_host_walk list_all_iff)
  have hr: "\<forall>p \<in> set (exe_candidates (host_walk (rev found_tie))
                         ([''/'', ''pfx''] @ [''drive_c''])).
             below ([''/'', ''pfx''] @ [''drive_c'']) p \<and> ascii_path p"
    using lt by (simp add: exe_candidates_host_walk list_all_iff)
  note tt = autodetect_exe_walk_order[OF ht, of "host_walk found_tie", unfolded d1,
              THEN conjunct2, THEN conjunct2, rule_format, of "[]" exe_one "[exe_two]"]
  note tr = autodetect_exe_walk_order[OF hr, of "host_walk (rev found_tie)", unfolded d2,
              THEN conjunct2, THEN conjunct2, rule_format, of "[]" exe_two "[exe_one]"]
  have "autodetect_exe (host_walk found_tie) [''/'', ''pfx''] =
          Inr ([CHR ''C'', CHR '':'', CHR 0x5C]
               @ join [CHR 0x5C] (drop (length ([''/'', ''pfx''] @ [''drive_c''])) exe_one))"
    using tt ft nb by simp
  then have r1: "autodetect_exe (host_walk found_tie) [''/'', ''pfx'']
     = Inr (''C:'' @ [CHR 0x5C] @ ''Program Files'' @ [CHR 0x5C] @ ''A'' @ [CHR 0x5C]
            @ ''one.exe'')"
    by (simp add: exe_one_def program_files_def)
  have "autodetect_exe (host_walk (rev found_tie)) [''/'', ''pfx''] =
          Inr ([CHR ''C'', CHR '':'', CHR 0x5C]
               @ join [CHR 0x5C] (drop (length ([''/'', ''pfx''] @ [''drive_c''])) exe_two))"
    using tr fr nb by simp
  then have r2: "autodetect_exe (host_walk (rev found_tie)) [''/'', ''pfx'']
     = Inr (''C:'' @ [CHR 0x5C] @ ''Program Files'' @ [CHR 0x5C] @ ''B'' @ [CHR 0x5C]
            @ ''two.exe'')"
    by (simp add: exe_two_def program_files_def)
  have p1: "exe_candidates (host_walk found_two) [''/'', ''pfx'', ''drive_c''] = found_two"
    and p2: "exe_candidates (host_walk (rev found_two)) [''/'', ''pfx'', ''drive_c'']
               = rev found_two"
    by (rule exe_candidates_host_walk)+
  show ?thesis
    using p1 p2 ne la f len bt e r lt ft nb r1 r2 by blast
qed

text \<open>
  C5 as stated fails: two candidates that tie on all three keys are selected in the order
  in which the walk yields them, so the same files walked in two orders give two results.
\<close>

theorem walk_order_tie_counterexample:
  "mset (exe_candidates (host_walk (rev found_tie)) [''/'', ''pfx'', ''drive_c''])
     = mset (exe_candidates (host_walk found_tie) [''/'', ''pfx'', ''drive_c'']) \<and>
   list_all (\<lambda>p. below [''/'', ''pfx'', ''drive_c''] p \<and> ascii_path p) found_tie \<and>
   score exe_one = score exe_two \<and>
   autodetect_exe (host_walk found_tie) [''/'', ''pfx'']
     = Inr (''C:'' @ [CHR 0x5C] @ ''Program Files'' @ [CHR 0x5C] @ ''A'' @ [CHR 0x5C] @ ''one.exe'') \<and>
   autodetect_exe (host_walk (rev found_tie)) [''/'', ''pfx'']
     = Inr (''C:'' @ [CHR 0x5C] @ ''Program Files'' @ [CHR 0x5C] @ ''B'' @ [CHR 0x5C] @ ''two.exe'') \<and>
   autodetect_exe (host_walk found_tie) [''/'', ''pfx'']
     \<noteq> autodetect_exe (host_walk (rev found_tie)) [''/'', ''pfx'']"
proof -
  have ms: "mset (exe_candidates (host_walk (rev found_tie)) [''/'', ''pfx'', ''drive_c''])
     = mset (exe_candidates (host_walk found_tie) [''/'', ''pfx'', ''drive_c''])"
    by (simp add: exe_candidates_host_walk)
  have la: "list_all (\<lambda>p. below [''/'', ''pfx'', ''drive_c''] p \<and> ascii_path p) found_tie"
    by code_simp
  have sc: "score exe_one = score exe_two" by code_simp
  have a: "autodetect_exe (host_walk found_tie) [''/'', ''pfx'']
     = Inr (''C:'' @ [CHR 0x5C] @ ''Program Files'' @ [CHR 0x5C] @ ''A'' @ [CHR 0x5C] @ ''one.exe'')"
    by code_simp
  have b: "autodetect_exe (host_walk (rev found_tie)) [''/'', ''pfx'']
     = Inr (''C:'' @ [CHR 0x5C] @ ''Program Files'' @ [CHR 0x5C] @ ''B'' @ [CHR 0x5C] @ ''two.exe'')"
    by code_simp
  have "autodetect_exe (host_walk found_tie) [''/'', ''pfx'']
          \<noteq> autodetect_exe (host_walk (rev found_tie)) [''/'', ''pfx'']"
    unfolding a b by simp
  then show ?thesis using ms la sc a b by blast
qed

text \<open>
  C10. For ASCII candidates \<open>p\<close> and \<open>q\<close> below the drive root. When the walk yields \<open>p\<close>
  alone, the result is "not found" exactly when the lowercased file name of \<open>p\<close> is on the
  deny list or a denied directory token occurs, letter for letter, in the path string of
  \<open>p\<close>, and the rendering of \<open>p\<close> otherwise. When the walk yields \<open>p\<close> and \<open>q\<close>, in either
  order, with \<open>p\<close> denied in one of these two ways and \<open>q\<close> in neither, the result is the
  rendering of \<open>q\<close>; with neither denied and the lowercased file name of \<open>p\<close> alone on the
  preferred list, the result is the rendering of \<open>p\<close>. The instances: \<open>Setup.exe\<close> is
  denied and \<open>LAUNCHER.exe\<close> preferred, though neither is on its list as written; the
  directory \<open>common files\<close> is not denied, \<open>Common Files\<close> is.
\<close>

theorem exe_name_match_ignores_case:
  assumes "below (pfx @ [''drive_c'']) p \<and> ascii_path p"
    and "below (pfx @ [''drive_c'']) q \<and> ascii_path q"
  shows "(exe_candidates w (pfx @ [''drive_c'']) = [p] \<longrightarrow>
            autodetect_exe w pfx =
              (if lower (path_name p) \<in> skip_names \<or>
                  (\<exists>tok \<in> set skip_dir_tokens. sublist tok (path_str p))
               then Inr []
               else Inr ([CHR ''C'', CHR '':'', CHR 0x5C]
                         @ join [CHR 0x5C] (drop (length (pfx @ [''drive_c''])) p)))) \<and>
         ((exe_candidates w (pfx @ [''drive_c'']) = [p, q] \<or>
           exe_candidates w (pfx @ [''drive_c'']) = [q, p]) \<and>
          (lower (path_name p) \<in> skip_names \<or>
           (\<exists>tok \<in> set skip_dir_tokens. sublist tok (path_str p))) \<and>
          lower (path_name q) \<notin> skip_names \<and>
          (\<forall>tok \<in> set skip_dir_tokens. \<not> sublist tok (path_str q))
          \<longrightarrow> autodetect_exe w pfx =
                Inr ([CHR ''C'', CHR '':'', CHR 0x5C]
                     @ join [CHR 0x5C] (drop (length (pfx @ [''drive_c''])) q))) \<and>
         ((exe_candidates w (pfx @ [''drive_c'']) = [p, q] \<or>
           exe_candidates w (pfx @ [''drive_c'']) = [q, p]) \<and>
          lower (path_name p) \<notin> skip_names \<and>
          (\<forall>tok \<in> set skip_dir_tokens. \<not> sublist tok (path_str p)) \<and>
          lower (path_name q) \<notin> skip_names \<and>
          (\<forall>tok \<in> set skip_dir_tokens. \<not> sublist tok (path_str q)) \<and>
          lower (path_name p) \<in> prefer_names \<and> lower (path_name q) \<notin> prefer_names
          \<longrightarrow> autodetect_exe w pfx =
                Inr ([CHR ''C'', CHR '':'', CHR 0x5C]
                     @ join [CHR 0x5C] (drop (length (pfx @ [''drive_c''])) p)))"
proof (intro conjI impI)
  assume c: "exe_candidates w (pfx @ [''drive_c'']) = [p]"
  show "autodetect_exe w pfx =
              (if lower (path_name p) \<in> skip_names \<or>
                  (\<exists>tok \<in> set skip_dir_tokens. sublist tok (path_str p))
               then Inr []
               else Inr ([CHR ''C'', CHR '':'', CHR 0x5C]
                         @ join [CHR 0x5C] (drop (length (pfx @ [''drive_c''])) p)))"
  proof (cases "exe_kept p")
    case True
    then have "filter exe_kept (exe_candidates w (pfx @ [''drive_c''])) = [p]"
      using c by simp
    from autodetect_exe_single[OF this] assms(1) True show ?thesis
      by (simp add: exe_kept_unfold)
  next
    case False
    then have "filter exe_kept (exe_candidates w (pfx @ [''drive_c''])) = []"
      using c by simp
    from autodetect_exe_none[OF this] False show ?thesis
      by (simp add: exe_kept_unfold)
  qed
next
  assume a: "(exe_candidates w (pfx @ [''drive_c'']) = [p, q] \<or>
              exe_candidates w (pfx @ [''drive_c'']) = [q, p]) \<and>
             (lower (path_name p) \<in> skip_names \<or>
              (\<exists>tok \<in> set skip_dir_tokens. sublist tok (path_str p))) \<and>
             lower (path_name q) \<notin> skip_names \<and>
             (\<forall>tok \<in> set skip_dir_tokens. \<not> sublist tok (path_str q))"
  then have kp: "\<not> exe_kept p" and kq: "exe_kept q"
    by (simp_all add: exe_kept_unfold)
  have "filter exe_kept (exe_candidates w (pfx @ [''drive_c''])) = [q]"
    using a kp kq by auto
  from autodetect_exe_single[OF this] assms(2)
  show "autodetect_exe w pfx =
          Inr ([CHR ''C'', CHR '':'', CHR 0x5C]
               @ join [CHR 0x5C] (drop (length (pfx @ [''drive_c''])) q))"
    by simp
next
  assume a: "(exe_candidates w (pfx @ [''drive_c'']) = [p, q] \<or>
              exe_candidates w (pfx @ [''drive_c'']) = [q, p]) \<and>
             lower (path_name p) \<notin> skip_names \<and>
             (\<forall>tok \<in> set skip_dir_tokens. \<not> sublist tok (path_str p)) \<and>
             lower (path_name q) \<notin> skip_names \<and>
             (\<forall>tok \<in> set skip_dir_tokens. \<not> sublist tok (path_str q)) \<and>
             lower (path_name p) \<in> prefer_names \<and> lower (path_name q) \<notin> prefer_names"
  then have kp: "exe_kept p" and kq: "exe_kept q"
    by (simp_all add: exe_kept_unfold)
  have lt: "score p < score q"
    using a preferred_score_less by blast
  have bp: "below (pfx @ [''drive_c'']) p" using assms(1) by simp
  from a consider "exe_candidates w (pfx @ [''drive_c'']) = [p, q]"
    | "exe_candidates w (pfx @ [''drive_c'']) = [q, p]" by blast
  then show "autodetect_exe w pfx =
          Inr ([CHR ''C'', CHR '':'', CHR 0x5C]
               @ join [CHR 0x5C] (drop (length (pfx @ [''drive_c''])) p))"
  proof cases
    case 1
    then have "filter exe_kept (exe_candidates w (pfx @ [''drive_c''])) = [] @ p # [q]"
      using kp kq by simp
    from autodetect_exe_first_min[OF this _ _ bp] lt show ?thesis by simp
  next
    case 2
    then have "filter exe_kept (exe_candidates w (pfx @ [''drive_c''])) = [q] @ p # []"
      using kp kq by simp
    from autodetect_exe_first_min[OF this _ _ bp] lt show ?thesis by simp
  qed
qed

theorem exe_name_match_ignores_case_witness:
  "list_all (\<lambda>p. below [''/'', ''pfx'', ''drive_c''] p \<and> ascii_path p)
     [exe_setup, exe_lc, exe_uc, exe_z, exe_launcher] \<and>
   path_name exe_setup = ''Setup.exe'' \<and> ''Setup.exe'' \<notin> skip_names \<and>
   lower ''Setup.exe'' = ''setup.exe'' \<and> ''setup.exe'' \<in> skip_names \<and>
   autodetect_exe (host_walk [exe_setup]) [''/'', ''pfx''] = Inr [] \<and>
   sublist (lower ''Common Files'') (lower (path_str exe_lc)) \<and>
   autodetect_exe (host_walk [exe_lc]) [''/'', ''pfx'']
     = Inr (''C:'' @ [CHR 0x5C] @ ''Program Files'' @ [CHR 0x5C] @ ''common files'' @ [CHR 0x5C]
            @ ''tool.exe'') \<and>
   autodetect_exe (host_walk [exe_uc]) [''/'', ''pfx''] = Inr [] \<and>
   autodetect_exe (host_walk [exe_setup, exe_lc]) [''/'', ''pfx'']
     = Inr (''C:'' @ [CHR 0x5C] @ ''Program Files'' @ [CHR 0x5C] @ ''common files'' @ [CHR 0x5C]
            @ ''tool.exe'') \<and>
   path_name exe_launcher = ''LAUNCHER.exe'' \<and> ''LAUNCHER.exe'' \<notin> prefer_names \<and>
   lower ''LAUNCHER.exe'' \<in> prefer_names \<and>
   autodetect_exe (host_walk [exe_z, exe_launcher]) [''/'', ''pfx'']
     = Inr (''C:'' @ [CHR 0x5C] @ ''Program Files'' @ [CHR 0x5C] @ ''MyApp'' @ [CHR 0x5C]
            @ ''Deep'' @ [CHR 0x5C] @ ''LAUNCHER.exe'')"
proof -
  have la: "list_all (\<lambda>p. below [''/'', ''pfx'', ''drive_c''] p \<and> ascii_path p)
              [exe_setup, exe_lc, exe_uc, exe_z, exe_launcher]"
    by code_simp
  then have h: "below ([''/'', ''pfx''] @ [''drive_c'']) exe_setup \<and> ascii_path exe_setup"
    "below ([''/'', ''pfx''] @ [''drive_c'']) exe_lc \<and> ascii_path exe_lc"
    "below ([''/'', ''pfx''] @ [''drive_c'']) exe_uc \<and> ascii_path exe_uc"
    "below ([''/'', ''pfx''] @ [''drive_c'']) exe_z \<and> ascii_path exe_z"
    "below ([''/'', ''pfx''] @ [''drive_c'']) exe_launcher \<and> ascii_path exe_launcher"
    by simp_all
  have c: "\<And>found. exe_candidates (host_walk found) ([''/'', ''pfx''] @ [''drive_c'']) = found"
    using exe_candidates_host_walk by simp
  have n1: "path_name exe_setup = ''Setup.exe''" by code_simp
  have n2: "''Setup.exe'' \<notin> skip_names" by code_simp
  have n3: "lower ''Setup.exe'' = ''setup.exe''" by code_simp
  have n4: "''setup.exe'' \<in> skip_names" by code_simp
  have s1: "lower (path_name exe_setup) \<in> skip_names" by code_simp
  have t1: "sublist (lower ''Common Files'') (lower (path_str exe_lc))" by code_simp
  have k2: "lower (path_name exe_lc) \<notin> skip_names"
    "\<forall>tok \<in> set skip_dir_tokens. \<not> sublist tok (path_str exe_lc)" by code_simp+
  have d3: "\<exists>tok \<in> set skip_dir_tokens. sublist tok (path_str exe_uc)" by code_simp
  have k4: "lower (path_name exe_z) \<notin> skip_names"
    "\<forall>tok \<in> set skip_dir_tokens. \<not> sublist tok (path_str exe_z)"
    "lower (path_name exe_z) \<notin> prefer_names" by code_simp+
  have k5: "lower (path_name exe_launcher) \<notin> skip_names"
    "\<forall>tok \<in> set skip_dir_tokens. \<not> sublist tok (path_str exe_launcher)"
    "lower (path_name exe_launcher) \<in> prefer_names" by code_simp+
  have n5: "path_name exe_launcher = ''LAUNCHER.exe''" by code_simp
  have n6: "''LAUNCHER.exe'' \<notin> prefer_names" by code_simp
  have n7: "lower ''LAUNCHER.exe'' \<in> prefer_names" by code_simp
  have r1: "autodetect_exe (host_walk [exe_setup]) [''/'', ''pfx''] = Inr []"
    using exe_name_match_ignores_case[OF h(1) h(1), of "host_walk [exe_setup]",
        THEN conjunct1, unfolded c] s1 by simp
  have "autodetect_exe (host_walk [exe_lc]) [''/'', ''pfx''] =
          Inr ([CHR ''C'', CHR '':'', CHR 0x5C]
               @ join [CHR 0x5C] (drop (length ([''/'', ''pfx''] @ [''drive_c''])) exe_lc))"
    using exe_name_match_ignores_case[OF h(2) h(2), of "host_walk [exe_lc]",
        THEN conjunct1, unfolded c] k2 by simp
  then have r2: "autodetect_exe (host_walk [exe_lc]) [''/'', ''pfx'']
     = Inr (''C:'' @ [CHR 0x5C] @ ''Program Files'' @ [CHR 0x5C] @ ''common files'' @ [CHR 0x5C]
            @ ''tool.exe'')"
    by (simp add: exe_lc_def program_files_def)
  have r3: "autodetect_exe (host_walk [exe_uc]) [''/'', ''pfx''] = Inr []"
    using exe_name_match_ignores_case[OF h(3) h(3), of "host_walk [exe_uc]",
        THEN conjunct1, unfolded c] d3 by simp
  have "autodetect_exe (host_walk [exe_setup, exe_lc]) [''/'', ''pfx''] =
          Inr ([CHR ''C'', CHR '':'', CHR 0x5C]
               @ join [CHR 0x5C] (drop (length ([''/'', ''pfx''] @ [''drive_c''])) exe_lc))"
    using exe_name_match_ignores_case[OF h(1) h(2), of "host_walk [exe_setup, exe_lc]",
        THEN conjunct2, THEN conjunct1, unfolded c] s1 k2 by simp
  then have r4: "autodetect_exe (host_walk [exe_setup, exe_lc]) [''/'', ''pfx'']
     = Inr (''C:'' @ [CHR 0x5C] @ ''Program Files'' @ [CHR 0x5C] @ ''common files'' @ [CHR 0x5C]
            @ ''tool.exe'')"
    by (simp add: exe_lc_def program_files_def)
  have "autodetect_exe (host_walk [exe_z, exe_launcher]) [''/'', ''pfx''] =
          Inr ([CHR ''C'', CHR '':'', CHR 0x5C]
               @ join [CHR 0x5C] (drop (length ([''/'', ''pfx''] @ [''drive_c''])) exe_launcher))"
    using exe_name_match_ignores_case[OF h(5) h(4), of "host_walk [exe_z, exe_launcher]",
        THEN conjunct2, THEN conjunct2, unfolded c] k4 k5 by simp
  then have r5: "autodetect_exe (host_walk [exe_z, exe_launcher]) [''/'', ''pfx'']
     = Inr (''C:'' @ [CHR 0x5C] @ ''Program Files'' @ [CHR 0x5C] @ ''MyApp'' @ [CHR 0x5C]
            @ ''Deep'' @ [CHR 0x5C] @ ''LAUNCHER.exe'')"
    by (simp add: exe_launcher_def program_files_def)
  show ?thesis
    using la n1 n2 n3 n4 r1 t1 r2 r3 r4 n5 n6 n7 r5 by blast
qed

end
